theory Spec2Isabelle
  imports Main "HOL-Library.Word" "HOL-Library.Product_Lexorder"
begin

section \<open>The Ledger session of \<open>launchpadledger.js\<close>\<close>

text \<open>
  The class \<open>LaunchpadLedger\<close> drives the Persistence app of a Ledger device through
  the vendor client \<open>ledger-cosmos-js\<close>. Every method is a sequence of awaited device
  calls, so the model threads one explicit world through them: the state of the device
  and the log of every request sent, with the response it got. A JavaScript exception
  is the \<open>Inl\<close> branch of the result.

  JavaScript strings are modelled as \<open>string\<close>, the UTF-8 bytes of the text (two
  well-formed strings are equal exactly when their encodings are). Byte arrays
  (\<open>Uint8Array\<close>, \<open>Buffer\<close>) are lists of 8-bit words.
\<close>

subsection \<open>Data\<close>

type_synonym bytes = "8 word list"

text \<open>
  \<open>Error msg\<close> is \<open>new Error(msg)\<close>. \<open>TypeError\<close> is a \<open>TypeError\<close> raised by the
  runtime or by a library (reading a property of \<open>undefined\<close>, an invalid version
  string); its message is not modelled.
\<close>

datatype error = Error string | TypeError

text \<open>
  An \<open>HdPath\<close> of \<open>@cosmjs/crypto\<close> is an array of \<open>Slip10RawIndex\<close>, each an unsigned
  32-bit value: \<open>toNumber()\<close> reads it and \<open>isHardened()\<close> tests \<open>value >= 2 ** 31\<close>.
\<close>

type_synonym Slip10RawIndex = "32 word"
type_synonym HdPath = "Slip10RawIndex list"

definition toNumber :: "Slip10RawIndex \<Rightarrow> int" where
  "toNumber n = uint n"

definition isHardened :: "Slip10RawIndex \<Rightarrow> bool" where
  "isHardened n = (2 ^ 31 \<le> toNumber n)"

text \<open>The requests the session sends to the vendor client, with their arguments.\<close>

datatype request =
    AppInfo
  | GetVersion
  | PublicKey "int list"
  | Sign "int list" string
  | ShowAddressAndPubKey "int list" string

text \<open>
  A response of the vendor client: one loosely typed object. The two error fields may
  be absent (the code gives them defaults); the payload fields have the types of the
  client's interface.
\<close>

record response =
  error_message :: "string option"
  device_locked :: "bool option"
  major :: nat
  minor :: nat
  patch :: nat
  test_mode :: bool
  appName :: string
  compressed_pk :: bytes
  signature :: bytes

text \<open>
  The device (the client \<open>this.app\<close> over its transport) answers a request from its
  current state and moves to a new state. The world is that state together with the
  log of the exchanges so far.
\<close>

type_synonym 'd device = "'d \<Rightarrow> request \<Rightarrow> response \<times> 'd"

record 'd world =
  dstate :: 'd
  trace :: "(request \<times> response) list"

type_synonym ('d, 'a) io = "'d world \<Rightarrow> (error + 'a) \<times> 'd world"

definition return :: "'a \<Rightarrow> ('d, 'a) io" where
  "return x w = (Inr x, w)"

definition throw :: "error \<Rightarrow> ('d, 'a) io" where
  "throw e w = (Inl e, w)"

text \<open>\<open>await\<close>: run \<open>m\<close>; an exception ends the method, a value goes on to \<open>f\<close>.\<close>

definition bind :: "('d, 'a) io \<Rightarrow> ('a \<Rightarrow> ('d, 'b) io) \<Rightarrow> ('d, 'b) io" where
  "bind m f w = (case m w of (Inl e, w') \<Rightarrow> (Inl e, w') | (Inr x, w') \<Rightarrow> f x w')"

text \<open>A synchronous step that may throw.\<close>

definition lift :: "error + 'a \<Rightarrow> ('d, 'a) io" where
  "lift r w = (r, w)"

text \<open>
  One round-trip: the request is sent and logged with its response. The vendor client
  turns a failure of the transport into a response that carries an error text, so a
  call always yields a response.
\<close>

definition send :: "'d device \<Rightarrow> request \<Rightarrow> ('d, response) io" where
  "send dev rq w =
     (case dev (dstate w) rq of
        (rs, d') \<Rightarrow> (Inr rs, \<lparr>dstate = d', trace = trace w @ [(rq, rs)]\<rparr>))"

text \<open>The session object: the three configured fields and the client.\<close>

record 'd LaunchpadLedger =
  testModeAllowed :: bool
  hdPaths :: "HdPath list"
  prefix :: string
  app :: "'d device"

subsection \<open>Constants and messages\<close>

definition persistenceBech32Prefix :: string where
  "persistenceBech32Prefix = ''persistence''"

definition requiredPersistenceAppVersion :: string where
  "requiredPersistenceAppVersion = ''1.0.0''"

text \<open>
  The code has no error kinds, only messages. Each constant below is the message the
  code throws where the specification names a kind.
  The screensaver message holds U+2019, written here as its three UTF-8 bytes.
\<close>

definition msg_DeviceLocked :: string where
  "msg_DeviceLocked = ''Ledger'' @ [CHR 0xE2, CHR 0x80, CHR 0x99] @ ''s screensaver mode is on''"

definition msg_ConnectionTimeout :: string where
  "msg_ConnectionTimeout = ''Connection timed out. Please try again.''"

definition msg_AppNotOpen :: string where
  "msg_AppNotOpen = ''Persistence app is not open''"

definition msg_TransactionRejected :: string where
  "msg_TransactionRejected = ''Transaction rejected''"

definition msg_OutdatedInstruction :: string where
  "msg_OutdatedInstruction =
     ''Your Persistence Ledger App is not up to date. Please update to version ''
       @ requiredPersistenceAppVersion @ ''.''"

definition msg_UnknownDeviceError :: "string \<Rightarrow> string" where
  "msg_UnknownDeviceError errorMessage = ''Ledger Native Error: '' @ errorMessage"

definition defaultRejectionMessage :: string where
  "defaultRejectionMessage = ''Request was rejected by the user''"

definition signRejectionMessage :: string where
  "signRejectionMessage = ''Transaction signing request was rejected by the user''"

definition msg_TestModeRejected :: string where
  "msg_TestModeRejected =
     ''DANGER: The Persistence Ledger app is in test mode and should not be used on mainnet!''"

definition msg_OutdatedApp :: string where
  "msg_OutdatedApp =
     ''Outdated version: Please update Persistence Ledger App to the latest version.''"

definition msg_WrongScreen :: string where
  "msg_WrongScreen = ''Please open the Persistence Ledger app on your Ledger device.''"

definition msg_WrongAppOpen :: "string \<Rightarrow> string" where
  "msg_WrongAppOpen name =
     ''Please close '' @ name @ '' and open the Persistence Ledger app on your Ledger device.''"

subsection \<open>Error translation\<close>

text \<open>
  \<open>handleLedgerErrors({error_message = "No errors", device_locked = false},
  rejectionMessage = "Request was rejected by the user")\<close>: the defaults stand in for
  absent fields and for an absent second argument; the locked test comes first, then
  the \<open>switch\<close> on the text, in the order of the source.
\<close>

definition handleLedgerErrors :: "response \<Rightarrow> string option \<Rightarrow> error + unit" where
  "handleLedgerErrors r rejection =
     (let errorMessage = (case error_message r of None \<Rightarrow> ''No errors'' | Some t \<Rightarrow> t);
          deviceLocked = (case device_locked r of None \<Rightarrow> False | Some b \<Rightarrow> b);
          rejectionMessage = (case rejection of None \<Rightarrow> defaultRejectionMessage | Some m \<Rightarrow> m)
      in if deviceLocked then Inl (Error msg_DeviceLocked)
         else if errorMessage = ''U2F: Timeout'' then Inl (Error msg_ConnectionTimeout)
         else if errorMessage = ''Persistence app does not seem to be open''
           then Inl (Error msg_AppNotOpen)
         else if errorMessage = ''Command not allowed'' then Inl (Error msg_TransactionRejected)
         else if errorMessage = ''Transaction rejected'' then Inl (Error rejectionMessage)
         else if errorMessage = ''Unknown Status Code: 26628'' then Inl (Error msg_DeviceLocked)
         else if errorMessage = ''Instruction not supported''
           then Inl (Error msg_OutdatedInstruction)
         else if errorMessage = ''No errors'' then Inr ()
         else Inl (Error (msg_UnknownDeviceError errorMessage)))"

subsection \<open>Strings: lower case and decimal numerals\<close>

text \<open>
  \<open>String.prototype.toLowerCase\<close> on the bytes of the text: an ASCII capital goes to
  its small letter and every other byte stays. (The built-in also lowers letters
  outside ASCII; none of them becomes a letter of \<open>dashboard\<close> or \<open>persistence\<close>, the
  two words the result is compared with.)
\<close>

definition lower_char :: "char \<Rightarrow> char" where
  "lower_char c =
     (let n = (of_char c :: nat) in if 65 \<le> n \<and> n \<le> 90 then char_of (n + 32) else c)"

definition upper_char :: "char \<Rightarrow> char" where
  "upper_char c =
     (let n = (of_char c :: nat) in if 97 \<le> n \<and> n \<le> 122 then char_of (n - 32) else c)"

definition toLowerCase :: "string \<Rightarrow> string" where
  "toLowerCase s = map lower_char s"

text \<open>
  Every casing of a word: each position holds the small or the capital form of the
  letter there (a byte that is no letter has one form only).
\<close>

fun casings :: "string \<Rightarrow> string list" where
  "casings [] = [[]]"
| "casings (c # cs) =
     concat (map (\<lambda>r. [lower_char c # r, upper_char c # r]) (casings cs))"

text \<open>
  The decimal numeral of a number, as a template literal prints an integer. A natural
  number stands for a JavaScript number exactly up to \<open>Number.MAX_SAFE_INTEGER\<close>.
\<close>

definition digit_char :: "nat \<Rightarrow> char" where
  "digit_char d = char_of (48 + d)"

fun decimal :: "nat \<Rightarrow> string" where
  "decimal n = (if n < 10 then [digit_char n] else decimal (n div 10) @ [digit_char (n mod 10)])"

definition is_digit :: "char \<Rightarrow> bool" where
  "is_digit c = (48 \<le> (of_char c :: nat) \<and> (of_char c :: nat) \<le> 57)"

definition digit_value :: "char \<Rightarrow> nat" where
  "digit_value c = of_char c - 48"

definition parse_decimal :: "string \<Rightarrow> nat" where
  "parse_decimal s = foldl (\<lambda>a c. 10 * a + digit_value c) 0 s"

subsection \<open>The \<open>semver\<close> package\<close>

text \<open>
  Modelled from the spec: \<open>semver\<close> is an imported package, absent from the sources;
  the specification asks for the comparison of versions by major, minor and patch
  with the standard precedence.
  \<open>semver.gte(a, b)\<close> builds a \<open>SemVer\<close> from each string and compares them. The
  constructor throws a \<open>TypeError\<close> on a string of more than 256 characters, on one
  that is not of the form \<open>major.minor.patch\<close> with numeric identifiers (digits, no
  leading zero), and on a component above \<open>Number.MAX_SAFE_INTEGER\<close>. The comparison
  goes through major, minor and patch and stops at the first difference.
  The session only ever passes \<open>`${major}.${minor}.${patch}`\<close> and \<open>"1.0.0"\<close>, so the
  rest of the grammar (a leading \<open>v\<close>, prerelease and build tags, surrounding blanks) is
  not modelled: such a string is invalid here.
\<close>

definition MAX_SAFE_INTEGER :: nat where
  "MAX_SAFE_INTEGER = 2 ^ 53 - 1"

definition MAX_LENGTH :: nat where
  "MAX_LENGTH = 256"

fun split_dots :: "string \<Rightarrow> string list" where
  "split_dots [] = [[]]"
| "split_dots (c # cs) =
     (if c = CHR ''.'' then [] # split_dots cs
      else (case split_dots cs of [] \<Rightarrow> [[c]] | w # ws \<Rightarrow> (c # w) # ws))"

definition numeric_identifier :: "string \<Rightarrow> nat option" where
  "numeric_identifier s =
     (if s = [] \<or> \<not> list_all is_digit s \<or> (1 < length s \<and> hd s = CHR ''0'') then None
      else Some (parse_decimal s))"

definition SemVer :: "string \<Rightarrow> error + (nat \<times> nat \<times> nat)" where
  "SemVer version =
     (if MAX_LENGTH < length version then Inl TypeError
      else case split_dots version of
        [a, b, c] \<Rightarrow>
          (case (numeric_identifier a, numeric_identifier b, numeric_identifier c) of
             (Some x, Some y, Some z) \<Rightarrow>
               if MAX_SAFE_INTEGER < x \<or> MAX_SAFE_INTEGER < y \<or> MAX_SAFE_INTEGER < z
               then Inl TypeError else Inr (x, y, z)
           | _ \<Rightarrow> Inl TypeError)
      | _ \<Rightarrow> Inl TypeError)"

definition compareIdentifiers :: "nat \<Rightarrow> nat \<Rightarrow> int" where
  "compareIdentifiers a b = (if a = b then 0 else if a < b then - 1 else 1)"

fun compareMain :: "nat \<times> nat \<times> nat \<Rightarrow> nat \<times> nat \<times> nat \<Rightarrow> int" where
  "compareMain (x, y, z) (x', y', z') =
     (if compareIdentifiers x x' \<noteq> 0 then compareIdentifiers x x'
      else if compareIdentifiers y y' \<noteq> 0 then compareIdentifiers y y'
      else compareIdentifiers z z')"

definition semver_gte :: "string \<Rightarrow> string \<Rightarrow> error + bool" where
  "semver_gte a b =
     (case SemVer a of
        Inl e \<Rightarrow> Inl e
      | Inr va \<Rightarrow> (case SemVer b of Inl e \<Rightarrow> Inl e | Inr vb \<Rightarrow> Inr (0 \<le> compareMain va vb)))"

subsection \<open>Derivation paths\<close>

text \<open>
  Modelled from the spec: \<open>Slip10RawIndex\<close> and \<open>stringToPath\<close> belong to the imported
  package \<open>@cosmjs/crypto\<close>, absent from the sources; the specification describes a
  path as unsigned 32-bit segments, hardened by an offset of \<open>2 ^ 31\<close>, parsed from a
  string \<open>m/44'/coinType'/account'/0/index\<close>.
  \<open>Slip10RawIndex.hardened(n)\<close> is \<open>new Slip10RawIndex(n + 2 ** 31)\<close> and
  \<open>Slip10RawIndex.normal(n)\<close> is \<open>new Slip10RawIndex(n)\<close>; the constructor throws when
  its argument is not a 32-bit unsigned value (\<open>None\<close> here).
\<close>

definition hardened :: "nat \<Rightarrow> Slip10RawIndex option" where
  "hardened n = (if n + 2 ^ 31 < 2 ^ 32 then Some (word_of_nat (n + 2 ^ 31)) else None)"

definition normal :: "nat \<Rightarrow> Slip10RawIndex option" where
  "normal n = (if n < 2 ^ 32 then Some (word_of_nat n) else None)"

text \<open>
  \<open>stringToPath\<close> of \<open>@cosmjs/crypto\<close>: the string starts with \<open>m\<close>; then, while
  something is left, a component \<open>/digits\<close> with an optional apostrophe is read, its
  value must be below \<open>2 ** 31\<close>, and it is pushed hardened (with the apostrophe) or
  normal. Any throw of the parser is \<open>None\<close>.
\<close>

definition match_component :: "string \<Rightarrow> (string \<times> bool \<times> string) option" where
  "match_component rest =
     (case rest of
        [] \<Rightarrow> None
      | c # cs \<Rightarrow>
          if c \<noteq> CHR ''/'' \<or> takeWhile is_digit cs = [] then None
          else (case dropWhile is_digit cs of
                  [] \<Rightarrow> Some (takeWhile is_digit cs, False, [])
                | q # qs \<Rightarrow>
                    if q = CHR 0x27 then Some (takeWhile is_digit cs, True, qs)
                    else Some (takeWhile is_digit cs, False, q # qs)))"

lemma match_component_shorter:
  "match_component rest = Some (numberString, apostrophe, rest') \<Longrightarrow> length rest' < length rest"
proof -
  assume m: "match_component rest = Some (numberString, apostrophe, rest')"
  then obtain c cs where rest: "rest = c # cs"
    by (cases rest) (auto simp: match_component_def)
  have le: "length (dropWhile is_digit cs) \<le> length cs"
    by (rule length_dropWhile_le)
  from m rest have
    "rest' = [] \<or> rest' = dropWhile is_digit cs \<or> (\<exists>q. dropWhile is_digit cs = q # rest')"
    by (auto simp: match_component_def split: if_splits list.splits)
  then have "length rest' \<le> length (dropWhile is_digit cs)"
    by auto
  with le rest show ?thesis by simp
qed

function path_components :: "string \<Rightarrow> HdPath option" where
  "path_components rest =
     (if rest = [] then Some []
      else (case match_component rest of
              None \<Rightarrow> None
            | Some (numberString, apostrophe, rest') \<Rightarrow>
                if 2 ^ 31 \<le> parse_decimal numberString then None
                else (case (if apostrophe then hardened (parse_decimal numberString)
                            else normal (parse_decimal numberString)) of
                        None \<Rightarrow> None
                      | Some i \<Rightarrow>
                          (case path_components rest' of
                             None \<Rightarrow> None
                           | Some out \<Rightarrow> Some (i # out)))))"
  by pat_completeness auto
termination
  by (relation "measure length") (auto dest: match_component_shorter)

definition stringToPath :: "string \<Rightarrow> HdPath option" where
  "stringToPath input =
     (case input of
        [] \<Rightarrow> None
      | c # rest \<Rightarrow> if c = CHR ''m'' then path_components rest else None)"

text \<open>
  \<open>makeHdPath(accountNumber = "0", addressIndex = "0", coinType = "750")\<close>: an absent
  argument takes its default.
\<close>

definition makeHdPath :: "string option \<Rightarrow> string option \<Rightarrow> string option \<Rightarrow> HdPath option" where
  "makeHdPath accountNumber addressIndex coinType =
     stringToPath (''m/44'' @ [CHR 0x27] @ ''/'' @ (case coinType of None \<Rightarrow> ''750'' | Some t \<Rightarrow> t)
       @ [CHR 0x27] @ ''/'' @ (case accountNumber of None \<Rightarrow> ''0'' | Some a \<Rightarrow> a)
       @ [CHR 0x27] @ ''/0/'' @ (case addressIndex of None \<Rightarrow> ''0'' | Some i \<Rightarrow> i))"

definition unharden :: "HdPath \<Rightarrow> int list" where
  "unharden hdPath = map (\<lambda>n. if isHardened n then toNumber n - 2 ^ 31 else toNumber n) hdPath"

text \<open>
  \<open>const persistenceHdPath = makeHdPath()\<close>, evaluated when the module loads (the
  parser does not throw on it, see \<open>makeHdPath_default\<close>).
\<close>

definition persistenceHdPath :: HdPath where
  "persistenceHdPath = the (makeHdPath None None None)"

subsection \<open>The session\<close>

text \<open>
  The constructor: each option that is present (not \<open>null\<close> or \<open>undefined\<close>) is stored
  as given, an absent one takes its default; the device is not contacted. The client
  \<open>new LedgerApp(transport)\<close> is the device function, so \<open>this.app\<close> is always there and
  the \<open>assert(this.app, ...)\<close> of the methods never fails.
\<close>

record LaunchpadLedgerOptions =
  opt_hdPaths :: "HdPath list option"
  opt_prefix :: "string option"
  opt_testModeAllowed :: "bool option"

definition new_LaunchpadLedger :: "'d device \<Rightarrow> LaunchpadLedgerOptions \<Rightarrow> 'd LaunchpadLedger" where
  "new_LaunchpadLedger transport options =
     \<lparr>testModeAllowed = (case opt_testModeAllowed options of None \<Rightarrow> False | Some b \<Rightarrow> b),
      hdPaths = (case opt_hdPaths options of None \<Rightarrow> [persistenceHdPath] | Some ps \<Rightarrow> ps),
      prefix = (case opt_prefix options of None \<Rightarrow> persistenceBech32Prefix | Some p \<Rightarrow> p),
      app = transport\<rparr>"

definition verifyAppMode :: "'d LaunchpadLedger \<Rightarrow> bool \<Rightarrow> error + unit" where
  "verifyAppMode this testMode =
     (if testMode \<and> \<not> testModeAllowed this then Inl (Error msg_TestModeRejected) else Inr ())"

definition getOpenAppName :: "'d LaunchpadLedger \<Rightarrow> ('d, string) io" where
  "getOpenAppName this =
     bind (send (app this) AppInfo) (\<lambda>response.
     bind (lift (handleLedgerErrors response None)) (\<lambda>_.
     return (appName response)))"

definition verifyCosmosAppIsOpen :: "'d LaunchpadLedger \<Rightarrow> ('d, unit) io" where
  "verifyCosmosAppIsOpen this =
     bind (getOpenAppName this) (\<lambda>appName.
     if toLowerCase appName = ''dashboard'' then throw (Error msg_WrongScreen)
     else if toLowerCase appName \<noteq> ''persistence'' then throw (Error (msg_WrongAppOpen appName))
     else return ())"

definition versionString :: "response \<Rightarrow> string" where
  "versionString response =
     decimal (major response) @ ''.'' @ decimal (minor response) @ ''.'' @ decimal (patch response)"

definition getCosmosAppVersion :: "'d LaunchpadLedger \<Rightarrow> ('d, string) io" where
  "getCosmosAppVersion this =
     bind (verifyCosmosAppIsOpen this) (\<lambda>_.
     bind (send (app this) GetVersion) (\<lambda>response.
     bind (lift (handleLedgerErrors response None)) (\<lambda>_.
     bind (lift (verifyAppMode this (test_mode response))) (\<lambda>_.
     return (versionString response)))))"

definition verifyAppVersion :: "'d LaunchpadLedger \<Rightarrow> ('d, unit) io" where
  "verifyAppVersion this =
     bind (getCosmosAppVersion this) (\<lambda>version.
     bind (lift (semver_gte version requiredPersistenceAppVersion)) (\<lambda>ok.
     if \<not> ok then throw (Error msg_OutdatedApp) else return ()))"

definition verifyDeviceIsReady :: "'d LaunchpadLedger \<Rightarrow> ('d, unit) io" where
  "verifyDeviceIsReady this =
     bind (verifyAppVersion this) (\<lambda>_. verifyCosmosAppIsOpen this)"

text \<open>
  \<open>hdPath || this.hdPaths[0]\<close>: an array is truthy, so a given path is used as it is;
  with no argument the first configured path is taken, which is \<open>undefined\<close> when none
  is configured, and \<open>unharden(undefined)\<close> then raises a \<open>TypeError\<close>.
\<close>

definition hdPathToUse :: "'d LaunchpadLedger \<Rightarrow> HdPath option \<Rightarrow> HdPath option" where
  "hdPathToUse this hdPath =
     (case hdPath of
        Some p \<Rightarrow> Some p
      | None \<Rightarrow> (case hdPaths this of [] \<Rightarrow> None | p # _ \<Rightarrow> Some p))"

definition getPubkey :: "'d LaunchpadLedger \<Rightarrow> HdPath option \<Rightarrow> ('d, bytes) io" where
  "getPubkey this hdPath =
     bind (verifyDeviceIsReady this) (\<lambda>_.
     case hdPathToUse this hdPath of
       None \<Rightarrow> throw TypeError
     | Some p \<Rightarrow>
         bind (send (app this) (PublicKey (unharden p))) (\<lambda>response.
         bind (lift (handleLedgerErrors response None)) (\<lambda>_.
         return (compressed_pk response))))"

text \<open>
  \<open>this.hdPaths.reduce((promise, hdPath) => promise.then(async (pubkeys) =>
  [...pubkeys, await this.getPubkey(hdPath)]), Promise.resolve([]))\<close>: a left fold that
  chains one \<open>getPubkey\<close> after the other.
\<close>

definition getPubkeys :: "'d LaunchpadLedger \<Rightarrow> ('d, bytes list) io" where
  "getPubkeys this =
     foldl (\<lambda>promise hdPath.
              bind promise (\<lambda>pubkeys.
              bind (getPubkey this (Some hdPath)) (\<lambda>pubkey.
              return (pubkeys @ [pubkey]))))
       (return []) (hdPaths this)"

text \<open>
  The three routines of other packages that the last methods call are parameters:
  \<open>getBech32FromPK\<close> of the vendor client, \<open>fromUtf8\<close> of \<open>@cosmjs/encoding\<close> and
  \<open>Secp256k1Signature.fromDer(...).toFixedLength()\<close> of \<open>@cosmjs/crypto\<close>. Each may throw.
  \<open>pubkey || (await this.getPubkey())\<close>: a byte array is truthy, so a given key is used.
\<close>

definition getCosmosAddress ::
  "(string \<Rightarrow> bytes \<Rightarrow> error + string) \<Rightarrow> 'd LaunchpadLedger \<Rightarrow> bytes option \<Rightarrow> ('d, string) io" where
  "getCosmosAddress getBech32FromPK this pubkey =
     bind (case pubkey of Some k \<Rightarrow> return k | None \<Rightarrow> getPubkey this None) (\<lambda>pubkeyToUse.
     lift (getBech32FromPK (prefix this) pubkeyToUse))"

definition sign ::
  "(bytes \<Rightarrow> error + string) \<Rightarrow> (bytes \<Rightarrow> error + bytes) \<Rightarrow>
   'd LaunchpadLedger \<Rightarrow> bytes \<Rightarrow> HdPath option \<Rightarrow> ('d, bytes) io" where
  "sign fromUtf8 fromDerToFixedLength this message hdPath =
     bind (verifyDeviceIsReady this) (\<lambda>_.
     case hdPathToUse this hdPath of
       None \<Rightarrow> throw TypeError
     | Some p \<Rightarrow>
         bind (lift (fromUtf8 message)) (\<lambda>text.
         bind (send (app this) (Sign (unharden p) text)) (\<lambda>response.
         bind (lift (handleLedgerErrors response (Some signRejectionMessage))) (\<lambda>_.
         lift (fromDerToFixedLength (signature response))))))"

definition verifyAddress :: "'d LaunchpadLedger \<Rightarrow> HdPath \<Rightarrow> ('d, response) io" where
  "verifyAddress this hdPath =
     bind (verifyDeviceIsReady this) (\<lambda>_.
     bind (send (app this) (ShowAddressAndPubKey (unharden hdPath) ''persistence'')) (\<lambda>response.
     bind (lift (handleLedgerErrors response None)) (\<lambda>_.
     return response)))"

subsection \<open>Reading the log\<close>

text \<open>
  The requests that produce data (a key, a signature, an address on the screen), as
  opposed to the two queries of the compatibility gate.
\<close>

fun is_data_request :: "request \<Rightarrow> bool" where
  "is_data_request AppInfo = False"
| "is_data_request GetVersion = False"
| "is_data_request (PublicKey p) = True"
| "is_data_request (Sign p t) = True"
| "is_data_request (ShowAddressAndPubKey p c) = True"

text \<open>The exchanges logged on the way from world \<open>w\<close> to world \<open>w'\<close>.\<close>

definition new_entries :: "'d world \<Rightarrow> 'd world \<Rightarrow> (request \<times> response) list" where
  "new_entries w w' = drop (length (trace w)) (trace w')"

text \<open>
  Every exchange logged on the way from \<open>w\<close> to \<open>w'\<close> has a response that error
  translation lets through.
\<close>

definition error_free :: "'d world \<Rightarrow> 'd world \<Rightarrow> bool" where
  "error_free w w' =
     (trace w' = trace w @ new_entries w w' \<and>
      list_all (\<lambda>x. handleLedgerErrors (snd x) None = Inr ()) (new_entries w w'))"

subsection \<open>Sample inputs\<close>

text \<open>A response without error fields, and devices that answer from a script.\<close>

definition sample_response :: response where
  "sample_response =
     \<lparr>error_message = None, device_locked = None, major = 1, minor = 0, patch = 0,
      test_mode = False, appName = ''Persistence'', compressed_pk = [2, 171], signature = [48]\<rparr>"

fun scripted :: "response list \<Rightarrow> request \<Rightarrow> response \<times> response list" where
  "scripted [] rq = (sample_response\<lparr>device_locked := Some True\<rparr>, [])"
| "scripted (r # rs) rq = (r, rs)"

definition sample_ledger :: "response list LaunchpadLedger" where
  "sample_ledger =
     new_LaunchpadLedger scripted \<lparr>opt_hdPaths = None, opt_prefix = None, opt_testModeAllowed = None\<rparr>"

definition start :: "response list \<Rightarrow> response list world" where
  "start script = \<lparr>dstate = script, trace = []\<rparr>"

definition version_response :: "nat \<Rightarrow> nat \<Rightarrow> nat \<Rightarrow> response" where
  "version_response x y z = sample_response\<lparr>major := x, minor := y, patch := z\<rparr>"

definition key_response :: "bytes \<Rightarrow> response" where
  "key_response k = sample_response\<lparr>compressed_pk := k\<rparr>"

definition second_path :: HdPath where
  "second_path = the (makeHdPath (Some ''1'') (Some ''5'') None)"

definition two_path_ledger :: "response list LaunchpadLedger" where
  "two_path_ledger = sample_ledger\<lparr>hdPaths := [persistenceHdPath, second_path]\<rparr>"

text \<open>A session constructed with an empty list of paths.\<close>

definition empty_ledger :: "response list LaunchpadLedger" where
  "empty_ledger =
     new_LaunchpadLedger scripted \<lparr>opt_hdPaths = Some [], opt_prefix = None, opt_testModeAllowed = None\<rparr>"

text \<open>Stand-ins for the three imported routines, used where a run is evaluated.\<close>

definition sample_bech32 :: "string \<Rightarrow> bytes \<Rightarrow> error + string" where
  "sample_bech32 p k = Inr (p @ ''1'' @ map (\<lambda>b. char_of (unat b)) k)"

definition sample_fromUtf8 :: "bytes \<Rightarrow> error + string" where
  "sample_fromUtf8 m = Inr (map (\<lambda>b. char_of (unat b)) m)"

definition sample_fromDer :: "bytes \<Rightarrow> error + bytes" where
  "sample_fromDer s = Inr s"

section \<open>Properties\<close>

subsection \<open>Error translation\<close>

lemma handleLedgerErrors_locked:
  "device_locked r = Some True \<Longrightarrow> handleLedgerErrors r m = Inl (Error msg_DeviceLocked)"
  by (simp add: handleLedgerErrors_def)

lemma handleLedgerErrors_unlocked:
  "device_locked r \<noteq> Some True \<Longrightarrow>
   handleLedgerErrors r m =
     (let t = (case error_message r of None \<Rightarrow> ''No errors'' | Some t \<Rightarrow> t) in
      if t = ''U2F: Timeout'' then Inl (Error msg_ConnectionTimeout)
      else if t = ''Persistence app does not seem to be open'' then Inl (Error msg_AppNotOpen)
      else if t = ''Command not allowed'' then Inl (Error msg_TransactionRejected)
      else if t = ''Transaction rejected''
        then Inl (Error (case m of None \<Rightarrow> defaultRejectionMessage | Some x \<Rightarrow> x))
      else if t = ''Unknown Status Code: 26628'' then Inl (Error msg_DeviceLocked)
      else if t = ''Instruction not supported'' then Inl (Error msg_OutdatedInstruction)
      else if t = ''No errors'' then Inr ()
      else Inl (Error (msg_UnknownDeviceError t)))"
  by (cases "device_locked r") (auto simp: handleLedgerErrors_def Let_def)

lemma handleLedgerErrors_ok_iff:
  "handleLedgerErrors r m = Inr () \<longleftrightarrow>
     device_locked r \<noteq> Some True \<and> (error_message r = None \<or> error_message r = Some ''No errors'')"
proof (cases "device_locked r = Some True")
  case True
  then show ?thesis by (simp add: handleLedgerErrors_locked)
next
  case False
  then show ?thesis
    by (cases "error_message r") (simp_all add: handleLedgerErrors_unlocked Let_def)
qed

subsection \<open>Sequencing\<close>

lemma bind_Inl: "m w = (Inl e, w') \<Longrightarrow> bind m f w = (Inl e, w')"
  by (simp add: bind_def)

lemma bind_Inr: "m w = (Inr x, w') \<Longrightarrow> bind m f w = f x w'"
  by (simp add: bind_def)

lemma bind_lift: "bind (lift r) f w = (case r of Inl e \<Rightarrow> (Inl e, w) | Inr x \<Rightarrow> f x w)"
  by (simp add: bind_def lift_def split: sum.splits)

lemma bind_return: "bind (return x) f w = f x w"
  by (simp add: bind_def return_def)

lemma bind_send:
  "bind (send dev rq) f w =
     f (fst (dev (dstate w) rq))
       \<lparr>dstate = snd (dev (dstate w) rq), trace = trace w @ [(rq, fst (dev (dstate w) rq))]\<rparr>"
  by (simp add: bind_def send_def split: prod.splits)

subsection \<open>The open-app check\<close>

lemma of_char_lower_char:
  "(of_char (lower_char c) :: nat) =
     (if 65 \<le> (of_char c :: nat) \<and> (of_char c :: nat) \<le> 90 then of_char c + 32 else of_char c)"
  by (simp add: lower_char_def Let_def)

lemma of_char_upper_char:
  "(of_char (upper_char c) :: nat) =
     (if 97 \<le> (of_char c :: nat) \<and> (of_char c :: nat) \<le> 122 then of_char c - 32 else of_char c)"
  by (auto simp: upper_char_def Let_def)

lemma char_eq_nat: "c = d \<longleftrightarrow> (of_char c :: nat) = of_char d"
  by simp

lemma lower_char_eq_iff:
  "lower_char x = lower_char c \<longleftrightarrow> x = lower_char c \<or> x = upper_char c"
  unfolding char_eq_nat [of "lower_char x"] char_eq_nat [of x]
  by (auto simp: of_char_lower_char of_char_upper_char)

lemma casings_iff: "n \<in> set (casings t) \<longleftrightarrow> toLowerCase n = toLowerCase t"
proof (induction t arbitrary: n)
  case Nil
  then show ?case by (simp add: toLowerCase_def)
next
  case (Cons c cs)
  show ?case
  proof (cases n)
    case Nil
    then show ?thesis by (auto simp: toLowerCase_def)
  next
    case (Cons x xs)
    have "n \<in> set (casings (c # cs)) \<longleftrightarrow>
            (x = lower_char c \<or> x = upper_char c) \<and> xs \<in> set (casings cs)"
      using Cons by auto
    also have "\<dots> \<longleftrightarrow> lower_char x = lower_char c \<and> toLowerCase xs = toLowerCase cs"
      by (simp add: lower_char_eq_iff Cons.IH)
    also have "\<dots> \<longleftrightarrow> toLowerCase n = toLowerCase (c # cs)"
      using Cons by (simp add: toLowerCase_def)
    finally show ?thesis .
  qed
qed

lemma toLowerCase_Dashboard: "toLowerCase ''Dashboard'' = ''dashboard''"
  by code_simp

lemma toLowerCase_Persistence: "toLowerCase ''Persistence'' = ''persistence''"
  by code_simp

lemma verifyCosmosAppIsOpen_cases:
  assumes "getOpenAppName this w = (Inr n, w')"
  shows "verifyCosmosAppIsOpen this w =
     (if toLowerCase n = ''dashboard'' then (Inl (Error msg_WrongScreen), w')
      else if toLowerCase n \<noteq> ''persistence'' then (Inl (Error (msg_WrongAppOpen n)), w')
      else (Inr (), w'))"
  using assms by (simp add: verifyCosmosAppIsOpen_def bind_Inr throw_def return_def)

text \<open>
  Claim C6. \<open>verifyCosmosAppIsOpen\<close> compares the name of the open app without regard
  to case: every casing of \<open>Dashboard\<close> fails with the open-the-app message, every
  casing of \<open>Persistence\<close> passes, and any other name fails with the message that
  names the app that is open.
\<close>

theorem verifyCosmosAppIsOpen_casing:
  assumes "getOpenAppName this w = (Inr n, w')"
  shows "(n \<in> set (casings ''Dashboard'') \<longrightarrow>
            verifyCosmosAppIsOpen this w = (Inl (Error msg_WrongScreen), w'))
       \<and> (n \<notin> set (casings ''Dashboard'') \<and> n \<notin> set (casings ''Persistence'') \<longrightarrow>
            verifyCosmosAppIsOpen this w =
              (Inl (Error (''Please close '' @ n @
                 '' and open the Persistence Ledger app on your Ledger device.'')), w'))
       \<and> (n \<in> set (casings ''Persistence'') \<longrightarrow> verifyCosmosAppIsOpen this w = (Inr (), w'))"
proof -
  have neq: "''persistence'' \<noteq> ''dashboard''" by simp
  show ?thesis
    unfolding casings_iff toLowerCase_Dashboard toLowerCase_Persistence
    using neq by (auto simp: verifyCosmosAppIsOpen_cases [OF assms] msg_WrongAppOpen_def)
qed


lemma getOpenAppName_eq:
  "getOpenAppName this w =
     (let r = fst (app this (dstate w) AppInfo);
          w' = \<lparr>dstate = snd (app this (dstate w) AppInfo), trace = trace w @ [(AppInfo, r)]\<rparr>
      in case handleLedgerErrors r None of
           Inl e \<Rightarrow> (Inl e, w')
         | Inr _ \<Rightarrow> (Inr (appName r), w'))"
  by (simp add: getOpenAppName_def bind_send bind_lift return_def Let_def split: sum.splits)

lemma sample_ledger_simps:
  "app sample_ledger = scripted" "testModeAllowed sample_ledger = False"
  "hdPaths sample_ledger = [persistenceHdPath]" "prefix sample_ledger = ''persistence''"
  by (simp_all add: sample_ledger_def new_LaunchpadLedger_def persistenceBech32Prefix_def)

lemma sample_response_simps:
  "error_message sample_response = None" "device_locked sample_response = None"
  "major sample_response = 1" "minor sample_response = 0" "patch sample_response = 0"
  "test_mode sample_response = False" "appName sample_response = ''Persistence''"
  "compressed_pk sample_response = [2, 171]" "signature sample_response = [48]"
  by (simp_all add: sample_response_def)

lemma handleLedgerErrors_sample:
  "error_message r = None \<Longrightarrow> device_locked r = None \<Longrightarrow> handleLedgerErrors r m = Inr ()"
  by (simp add: handleLedgerErrors_ok_iff)

lemma getOpenAppName_sample:
  "getOpenAppName sample_ledger (start [sample_response\<lparr>appName := n\<rparr>]) =
     (Inr n, \<lparr>dstate = [], trace = [(AppInfo, sample_response\<lparr>appName := n\<rparr>)]\<rparr>)"
  by (simp add: getOpenAppName_eq sample_ledger_simps start_def sample_response_simps
      handleLedgerErrors_sample)

theorem verifyCosmosAppIsOpen_casing_witness:
  "verifyCosmosAppIsOpen sample_ledger (start [sample_response\<lparr>appName := ''DASHboard''\<rparr>]) =
     (Inl (Error msg_WrongScreen),
      \<lparr>dstate = [], trace = [(AppInfo, sample_response\<lparr>appName := ''DASHboard''\<rparr>)]\<rparr>)
   \<and> verifyCosmosAppIsOpen sample_ledger (start [sample_response\<lparr>appName := ''SomeOtherApp''\<rparr>]) =
     (Inl (Error ''Please close SomeOtherApp and open the Persistence Ledger app on your Ledger device.''),
      \<lparr>dstate = [], trace = [(AppInfo, sample_response\<lparr>appName := ''SomeOtherApp''\<rparr>)]\<rparr>)
   \<and> verifyCosmosAppIsOpen sample_ledger (start [sample_response\<lparr>appName := ''PERSISTence''\<rparr>]) =
     (Inr (), \<lparr>dstate = [], trace = [(AppInfo, sample_response\<lparr>appName := ''PERSISTence''\<rparr>)]\<rparr>)"
proof -
  have a: "''DASHboard'' \<in> set (casings ''Dashboard'')"
    unfolding casings_iff by code_simp
  have b: "''SomeOtherApp'' \<notin> set (casings ''Dashboard'') \<and> ''SomeOtherApp'' \<notin> set (casings ''Persistence'')"
    unfolding casings_iff by code_simp
  have c: "''PERSISTence'' \<in> set (casings ''Persistence'')"
    unfolding casings_iff by code_simp
  note t1 = verifyCosmosAppIsOpen_casing [OF getOpenAppName_sample [of "''DASHboard''"],
      THEN conjunct1, THEN mp, OF a]
  note t2 = verifyCosmosAppIsOpen_casing [OF getOpenAppName_sample [of "''SomeOtherApp''"],
      THEN conjunct2, THEN conjunct1, THEN mp, OF b]
  note t3 = verifyCosmosAppIsOpen_casing [OF getOpenAppName_sample [of "''PERSISTence''"],
      THEN conjunct2, THEN conjunct2, THEN mp, OF c]
  from t1 t2 t3 show ?thesis
    by (simp del: casings.simps)
qed

declare decimal.simps [simp del]
declare path_components.simps [simp del]

subsection \<open>Decimal numerals\<close>

lemma is_digit_digit_char: "d < 10 \<Longrightarrow> is_digit (digit_char d)"
  by (simp add: is_digit_def digit_char_def)

lemma digit_value_digit_char: "d < 10 \<Longrightarrow> digit_value (digit_char d) = d"
  by (simp add: digit_value_def digit_char_def)

lemma digit_char_zero_iff: "d < 10 \<Longrightarrow> digit_char d = CHR ''0'' \<longleftrightarrow> d = 0"
  unfolding char_eq_nat [of "digit_char d"] by (simp add: digit_char_def)

lemma decimal_small: "n < 10 \<Longrightarrow> decimal n = [digit_char n]"
  by (subst decimal.simps) simp

lemma decimal_large: "\<not> n < 10 \<Longrightarrow> decimal n = decimal (n div 10) @ [digit_char (n mod 10)]"
  by (subst decimal.simps) simp

lemma decimal_nonempty: "decimal n \<noteq> []"
  by (cases "n < 10") (simp_all add: decimal_small decimal_large)

lemma decimal_digits: "list_all is_digit (decimal n)"
proof (induction n rule: decimal.induct)
  case (1 n)
  show ?case
  proof (cases "n < 10")
    case True
    then show ?thesis by (simp add: decimal_small is_digit_digit_char)
  next
    case False
    with "1.IH" show ?thesis by (simp add: decimal_large is_digit_digit_char)
  qed
qed

lemma parse_decimal_snoc: "parse_decimal (xs @ [c]) = 10 * parse_decimal xs + digit_value c"
  by (simp add: parse_decimal_def)

lemma parse_decimal_decimal: "parse_decimal (decimal n) = n"
proof (induction n rule: decimal.induct)
  case (1 n)
  show ?case
  proof (cases "n < 10")
    case True
    then show ?thesis by (simp add: decimal_small parse_decimal_def digit_value_digit_char)
  next
    case False
    with "1.IH" show ?thesis
      by (simp add: decimal_large parse_decimal_snoc digit_value_digit_char)
  qed
qed

lemma hd_decimal: "hd (decimal n) = CHR ''0'' \<longleftrightarrow> n = 0"
proof (induction n rule: decimal.induct)
  case (1 n)
  show ?case
  proof (cases "n < 10")
    case True
    then show ?thesis by (simp add: decimal_small digit_char_zero_iff)
  next
    case False
    then have "n div 10 \<noteq> 0" by simp
    with False "1.IH" show ?thesis
      by (simp add: decimal_large decimal_nonempty)
  qed
qed

lemma length_decimal_gt_1: "1 < length (decimal n) \<Longrightarrow> n \<noteq> 0"
  by (cases "n < 10") (auto simp: decimal_small)

lemma numeric_identifier_decimal: "numeric_identifier (decimal n) = Some n"
  using length_decimal_gt_1 [of n]
  by (auto simp: numeric_identifier_def decimal_nonempty decimal_digits hd_decimal
      parse_decimal_decimal)

lemma length_decimal_le: "n < 10 ^ k \<Longrightarrow> 0 < k \<Longrightarrow> length (decimal n) \<le> k"
proof (induction n arbitrary: k rule: decimal.induct)
  case (1 n)
  show ?case
  proof (cases "n < 10")
    case True
    with "1.prems" show ?thesis by (simp add: decimal_small)
  next
    case False
    with "1.prems" obtain j where k: "k = Suc j"
      by (cases k) auto
    from False "1.prems" k have "0 < j"
      by (cases j) auto
    moreover from "1.prems" k have "n div 10 < 10 ^ j"
      by (simp add: less_mult_imp_div_less mult.commute)
    ultimately have "length (decimal (n div 10)) \<le> j"
      using "1.IH" False by blast
    with False k show ?thesis by (simp add: decimal_large)
  qed
qed

lemma length_decimal_safe: "n \<le> MAX_SAFE_INTEGER \<Longrightarrow> length (decimal n) \<le> 16"
  by (rule length_decimal_le) (simp_all add: MAX_SAFE_INTEGER_def)

lemma dot_notin_decimal: "CHR ''.'' \<notin> set (decimal n)"
proof
  assume "CHR ''.'' \<in> set (decimal n)"
  with decimal_digits [of n] have "is_digit CHR ''.''"
    by (simp add: list_all_iff)
  then show False by (simp add: is_digit_def)
qed

subsection \<open>Version strings\<close>

lemma split_dots_no_dot: "CHR ''.'' \<notin> set a \<Longrightarrow> split_dots a = [a]"
  by (induction a) auto

lemma split_dots_append:
  "CHR ''.'' \<notin> set a \<Longrightarrow> split_dots (a @ CHR ''.'' # rest) = a # split_dots rest"
  by (induction a) auto

lemma SemVer_decimal:
  assumes "x \<le> MAX_SAFE_INTEGER" "y \<le> MAX_SAFE_INTEGER" "z \<le> MAX_SAFE_INTEGER"
  shows "SemVer (decimal x @ ''.'' @ decimal y @ ''.'' @ decimal z) = Inr (x, y, z)"
proof -
  have len: "\<not> MAX_LENGTH < length (decimal x @ ''.'' @ decimal y @ ''.'' @ decimal z)"
    using assms [THEN length_decimal_safe] by (simp add: MAX_LENGTH_def)
  have split: "split_dots (decimal x @ CHR ''.'' # decimal y @ CHR ''.'' # decimal z)
                 = [decimal x, decimal y, decimal z]"
    by (simp add: split_dots_append split_dots_no_dot dot_notin_decimal)
  show ?thesis
    unfolding SemVer_def using len assms
    by (simp add: split numeric_identifier_decimal)
qed

lemma SemVer_required: "SemVer requiredPersistenceAppVersion = Inr (1, 0, 0)"
  by (simp add: requiredPersistenceAppVersion_def SemVer_def MAX_LENGTH_def
      numeric_identifier_def is_digit_def parse_decimal_def digit_value_def
      MAX_SAFE_INTEGER_def)

lemma compareMain_ge_iff:
  "0 \<le> compareMain (x, y, z) (x', y', z') \<longleftrightarrow> \<not> (x, y, z) < (x', y', z')"
  by (auto simp: compareIdentifiers_def)

lemma semver_gte_versionString:
  assumes "major r \<le> MAX_SAFE_INTEGER" "minor r \<le> MAX_SAFE_INTEGER" "patch r \<le> MAX_SAFE_INTEGER"
  shows "semver_gte (versionString r) requiredPersistenceAppVersion
           = Inr (\<not> (major r, minor r, patch r) < (1, 0, 0))"
  unfolding semver_gte_def versionString_def SemVer_decimal [OF assms] SemVer_required
  by (simp only: sum.case compareMain_ge_iff)

subsection \<open>The version query\<close>

lemma handleLedgerErrors_not_test_mode:
  "handleLedgerErrors r None \<noteq> Inl (Error msg_TestModeRejected)"
proof (cases "device_locked r = Some True")
  case True
  then show ?thesis
    by (simp add: handleLedgerErrors_locked msg_DeviceLocked_def msg_TestModeRejected_def)
next
  case False
  then show ?thesis
    by (simp add: handleLedgerErrors_unlocked Let_def msg_TestModeRejected_def
        msg_ConnectionTimeout_def msg_AppNotOpen_def msg_TransactionRejected_def
        defaultRejectionMessage_def msg_DeviceLocked_def msg_OutdatedInstruction_def
        msg_UnknownDeviceError_def)
qed

lemma getOpenAppName_not_test_mode:
  "fst (getOpenAppName this w) \<noteq> Inl (Error msg_TestModeRejected)"
  using handleLedgerErrors_not_test_mode [of "fst (app this (dstate w) AppInfo)"]
  by (auto simp: getOpenAppName_eq Let_def split: sum.splits)

lemma verifyCosmosAppIsOpen_not_test_mode:
  "fst (verifyCosmosAppIsOpen this w) \<noteq> Inl (Error msg_TestModeRejected)"
proof (cases "getOpenAppName this w")
  case (Pair res w')
  show ?thesis
  proof (cases res)
    case (Inl e)
    with Pair getOpenAppName_not_test_mode [of this w] show ?thesis
      by (simp add: verifyCosmosAppIsOpen_def bind_Inl)
  next
    case (Inr n)
    with Pair show ?thesis
      by (simp add: verifyCosmosAppIsOpen_cases msg_WrongScreen_def msg_WrongAppOpen_def
          msg_TestModeRejected_def)
  qed
qed

lemma getCosmosAppVersion_open_fails:
  "verifyCosmosAppIsOpen this w = (Inl e, w1) \<Longrightarrow> getCosmosAppVersion this w = (Inl e, w1)"
  by (simp add: getCosmosAppVersion_def bind_Inl)

lemma getCosmosAppVersion_open_ok:
  "verifyCosmosAppIsOpen this w = (Inr u, w1) \<Longrightarrow>
   getCosmosAppVersion this w =
     (let r = fst (app this (dstate w1) GetVersion);
          w2 = \<lparr>dstate = snd (app this (dstate w1) GetVersion),
                trace = trace w1 @ [(GetVersion, r)]\<rparr>
      in case handleLedgerErrors r None of
           Inl e \<Rightarrow> (Inl e, w2)
         | Inr _ \<Rightarrow>
             if test_mode r \<and> \<not> testModeAllowed this then (Inl (Error msg_TestModeRejected), w2)
             else (Inr (versionString r), w2))"
  by (simp add: getCosmosAppVersion_def bind_Inr bind_send bind_lift verifyAppMode_def
      return_def Let_def split: sum.splits)

text \<open>
  Claim C5. \<open>getCosmosAppVersion\<close> fails with the test-mode message exactly when the
  open-app check has passed, the version response has passed error translation, its
  test-mode flag is set and the session does not allow test mode. So it never fails
  for that reason when test mode is allowed or the flag is unset, and a version
  response that fails error translation gives that failure whatever its flag says.
\<close>

theorem getCosmosAppVersion_test_mode:
  assumes "w1 = snd (verifyCosmosAppIsOpen this w)"
      and "r = fst (app this (dstate w1) GetVersion)"
  shows "(fst (getCosmosAppVersion this w) = Inl (Error msg_TestModeRejected) \<longleftrightarrow>
            fst (verifyCosmosAppIsOpen this w) = Inr () \<and> handleLedgerErrors r None = Inr () \<and>
            test_mode r \<and> \<not> testModeAllowed this)
       \<and> (fst (verifyCosmosAppIsOpen this w) = Inr () \<longrightarrow>
            (\<forall>e. handleLedgerErrors r None = Inl e \<longrightarrow>
                  fst (getCosmosAppVersion this w) = Inl e))"
proof (cases "verifyCosmosAppIsOpen this w")
  case (Pair res w1')
  with assms have w1: "w1' = w1" by simp
  show ?thesis
  proof (cases res)
    case (Inl e)
    with Pair verifyCosmosAppIsOpen_not_test_mode [of this w] show ?thesis
      by (simp add: getCosmosAppVersion_open_fails)
  next
    case (Inr u)
    with Pair w1 have ok: "verifyCosmosAppIsOpen this w = (Inr u, w1)" by simp
    show ?thesis
    proof (cases "handleLedgerErrors r None")
      case (Inl e)
      with ok assms(2) handleLedgerErrors_not_test_mode [of r] show ?thesis
        by (simp add: getCosmosAppVersion_open_ok Let_def)
    next
      case (Inr u')
      with ok assms(2) show ?thesis
        by (simp add: getCosmosAppVersion_open_ok Let_def)
    qed
  qed
qed

subsection \<open>The version check\<close>

lemma getCosmosAppVersion_Inr:
  assumes "getCosmosAppVersion this w = (Inr v, w')"
  shows "\<exists>t r. trace w' = t @ [(GetVersion, r)] \<and> v = versionString r"
proof (cases "verifyCosmosAppIsOpen this w")
  case (Pair res w1)
  show ?thesis
  proof (cases res)
    case (Inl e)
    with Pair assms show ?thesis
      by (simp add: getCosmosAppVersion_open_fails)
  next
    case (Inr u)
    with Pair have "verifyCosmosAppIsOpen this w = (Inr u, w1)" by simp
    from getCosmosAppVersion_open_ok [OF this] assms show ?thesis
      by (auto simp: Let_def split: sum.splits if_splits)
  qed
qed

lemma verifyAppVersion_eq:
  "getCosmosAppVersion this w = (Inr v, w') \<Longrightarrow>
   verifyAppVersion this w =
     (case semver_gte v requiredPersistenceAppVersion of
        Inl e \<Rightarrow> (Inl e, w')
      | Inr ok \<Rightarrow> if \<not> ok then (Inl (Error msg_OutdatedApp), w') else (Inr (), w'))"
  by (simp add: verifyAppVersion_def bind_Inr bind_lift throw_def return_def split: sum.splits)

text \<open>
  Claim C3. When \<open>getCosmosAppVersion\<close> succeeds, the string it returns is the version
  the device reported in the last logged response, and (for components that
  \<open>semver\<close> accepts, up to \<open>Number.MAX_SAFE_INTEGER\<close>) \<open>verifyAppVersion\<close> fails with
  the outdated-version message exactly when that version is below \<open>1.0.0\<close> in the
  order of major, then minor, then patch; otherwise it succeeds.
\<close>

theorem verifyAppVersion_semver:
  assumes "getCosmosAppVersion this w = (Inr v, w')"
      and "r = snd (last (trace w'))"
      and "major r \<le> MAX_SAFE_INTEGER" "minor r \<le> MAX_SAFE_INTEGER" "patch r \<le> MAX_SAFE_INTEGER"
  shows "fst (last (trace w')) = GetVersion \<and> v = versionString r \<and>
         verifyAppVersion this w =
           (if (major r, minor r, patch r) < (1, 0, 0) then Inl (Error msg_OutdatedApp)
            else Inr (), w')"
proof -
  from getCosmosAppVersion_Inr [OF assms(1)]
  obtain t r' where t: "trace w' = t @ [(GetVersion, r')]" and v': "v = versionString r'"
    by blast
  from t assms(2) have r: "r = r'" by simp
  from t have last: "fst (last (trace w')) = GetVersion" by simp
  from v' r have v: "v = versionString r" by simp
  from verifyAppVersion_eq [OF assms(1)] v semver_gte_versionString [OF assms(3-5)]
  have "verifyAppVersion this w =
           (if (major r, minor r, patch r) < (1, 0, 0) then Inl (Error msg_OutdatedApp)
            else Inr (), w')"
    by simp
  with last v show ?thesis by simp
qed


subsection \<open>The scripted device\<close>

lemma getOpenAppName_scripted:
  assumes "app this = scripted" "handleLedgerErrors r None = Inr ()"
  shows "getOpenAppName this \<lparr>dstate = r # rs, trace = t\<rparr> =
           (Inr (appName r), \<lparr>dstate = rs, trace = t @ [(AppInfo, r)]\<rparr>)"
  using assms by (simp add: getOpenAppName_eq)

lemma handleLedgerErrors_sample_response: "handleLedgerErrors sample_response m = Inr ()"
  by (simp add: handleLedgerErrors_ok_iff sample_response_simps)

lemma verifyCosmosAppIsOpen_scripted:
  assumes "app this = scripted"
  shows "verifyCosmosAppIsOpen this \<lparr>dstate = sample_response # rs, trace = t\<rparr> =
           (Inr (), \<lparr>dstate = rs, trace = t @ [(AppInfo, sample_response)]\<rparr>)"
proof -
  have neq: "''persistence'' \<noteq> ''dashboard''" by simp
  from getOpenAppName_scripted [OF assms handleLedgerErrors_sample_response] neq
  show ?thesis
    by (simp add: verifyCosmosAppIsOpen_cases sample_response_simps toLowerCase_Persistence)
qed

lemma getCosmosAppVersion_scripted:
  assumes "app this = scripted"
  shows "getCosmosAppVersion this \<lparr>dstate = sample_response # r # rs, trace = t\<rparr> =
           (case handleLedgerErrors r None of
              Inl e \<Rightarrow> Inl e
            | Inr _ \<Rightarrow>
                if test_mode r \<and> \<not> testModeAllowed this then Inl (Error msg_TestModeRejected)
                else Inr (versionString r),
            \<lparr>dstate = rs, trace = t @ [(AppInfo, sample_response), (GetVersion, r)]\<rparr>)"
  using assms
  by (auto simp: getCosmosAppVersion_open_ok [OF verifyCosmosAppIsOpen_scripted [OF assms]]
      Let_def split: sum.splits)

theorem getCosmosAppVersion_test_mode_witness:
  "fst (getCosmosAppVersion sample_ledger
          (start [sample_response, sample_response\<lparr>test_mode := True\<rparr>]))
     = Inl (Error msg_TestModeRejected)
   \<and> fst (getCosmosAppVersion (sample_ledger\<lparr>testModeAllowed := True\<rparr>)
          (start [sample_response, sample_response\<lparr>test_mode := True\<rparr>]))
     \<noteq> Inl (Error msg_TestModeRejected)
   \<and> fst (getCosmosAppVersion sample_ledger
          (start [sample_response, sample_response\<lparr>test_mode := True, device_locked := Some True\<rparr>]))
     = Inl (Error msg_DeviceLocked)"
proof -
  have a: "app sample_ledger = scripted"
    and b: "app (sample_ledger\<lparr>testModeAllowed := True\<rparr>) = scripted"
    by (simp_all add: sample_ledger_simps)
  show ?thesis
    using
      getCosmosAppVersion_test_mode [OF refl refl, of sample_ledger
        "start [sample_response, sample_response\<lparr>test_mode := True\<rparr>]"]
      getCosmosAppVersion_test_mode [OF refl refl, of "sample_ledger\<lparr>testModeAllowed := True\<rparr>"
        "start [sample_response, sample_response\<lparr>test_mode := True\<rparr>]"]
      getCosmosAppVersion_test_mode [OF refl refl, of sample_ledger
        "start [sample_response, sample_response\<lparr>test_mode := True, device_locked := Some True\<rparr>]"]
    by (simp add: start_def verifyCosmosAppIsOpen_scripted [OF a]
        verifyCosmosAppIsOpen_scripted [OF b] sample_ledger_simps
        handleLedgerErrors_ok_iff handleLedgerErrors_locked sample_response_simps)
qed

lemma version_response_simps:
  "error_message (version_response x y z) = None" "device_locked (version_response x y z) = None"
  "test_mode (version_response x y z) = False" "major (version_response x y z) = x"
  "minor (version_response x y z) = y" "patch (version_response x y z) = z"
  by (simp_all add: version_response_def sample_response_simps)

lemma getCosmosAppVersion_sample:
  "getCosmosAppVersion sample_ledger (start [sample_response, version_response x y z]) =
     (Inr (versionString (version_response x y z)),
      \<lparr>dstate = [], trace = [(AppInfo, sample_response), (GetVersion, version_response x y z)]\<rparr>)"
proof -
  have a: "app sample_ledger = scripted"
    by (simp add: sample_ledger_simps)
  have h: "handleLedgerErrors (version_response x y z) None = Inr ()"
    by (simp add: handleLedgerErrors_ok_iff version_response_simps)
  show ?thesis
    by (simp add: start_def getCosmosAppVersion_scripted [OF a] h sample_ledger_simps
        version_response_simps)
qed

lemma versionString_samples:
  "versionString (version_response 0 9 9) = ''0.9.9''"
  "versionString (version_response 1 0 0) = ''1.0.0''"
  "versionString (version_response 1 2 0) = ''1.2.0''"
  by code_simp+

theorem verifyAppVersion_semver_witness:
  "getCosmosAppVersion sample_ledger (start [sample_response, version_response 0 9 9]) =
     (Inr ''0.9.9'',
      \<lparr>dstate = [], trace = [(AppInfo, sample_response), (GetVersion, version_response 0 9 9)]\<rparr>)
   \<and> verifyAppVersion sample_ledger (start [sample_response, version_response 0 9 9]) =
     (Inl (Error msg_OutdatedApp),
      \<lparr>dstate = [], trace = [(AppInfo, sample_response), (GetVersion, version_response 0 9 9)]\<rparr>)
   \<and> verifyAppVersion sample_ledger (start [sample_response, version_response 1 0 0]) =
     (Inr (),
      \<lparr>dstate = [], trace = [(AppInfo, sample_response), (GetVersion, version_response 1 0 0)]\<rparr>)
   \<and> verifyAppVersion sample_ledger (start [sample_response, version_response 1 2 0]) =
     (Inr (),
      \<lparr>dstate = [], trace = [(AppInfo, sample_response), (GetVersion, version_response 1 2 0)]\<rparr>)"
  using verifyAppVersion_semver [OF getCosmosAppVersion_sample [of 0 9 9] refl]
    verifyAppVersion_semver [OF getCosmosAppVersion_sample [of 1 0 0] refl]
    verifyAppVersion_semver [OF getCosmosAppVersion_sample [of 1 2 0] refl]
    getCosmosAppVersion_sample [of 0 9 9]
  by (simp add: version_response_simps MAX_SAFE_INTEGER_def versionString_samples)

subsection \<open>The compatibility gate\<close>

lemma verifyCosmosAppIsOpen_world:
  "snd (verifyCosmosAppIsOpen this w) =
     \<lparr>dstate = snd (app this (dstate w) AppInfo),
      trace = trace w @ [(AppInfo, fst (app this (dstate w) AppInfo))]\<rparr>"
  by (simp add: verifyCosmosAppIsOpen_def bind_def getOpenAppName_eq Let_def throw_def return_def
      split: sum.splits)

lemma getCosmosAppVersion_trace:
  "\<exists>g. trace (snd (getCosmosAppVersion this w)) = trace w @ g \<and>
       (map fst g = [AppInfo] \<and> fst (getCosmosAppVersion this w) \<noteq> Inr v
        \<or> map fst g = [AppInfo, GetVersion])"
proof (cases "verifyCosmosAppIsOpen this w")
  case (Pair res w1)
  with verifyCosmosAppIsOpen_world [of this w]
  have w1: "trace w1 = trace w @ [(AppInfo, fst (app this (dstate w) AppInfo))]"
    by simp
  show ?thesis
  proof (cases res)
    case (Inl e)
    with Pair w1 show ?thesis
      by (simp add: getCosmosAppVersion_open_fails)
  next
    case (Inr u)
    with Pair have "verifyCosmosAppIsOpen this w = (Inr u, w1)" by simp
    from getCosmosAppVersion_open_ok [OF this] w1 show ?thesis
      by (simp add: Let_def split: sum.splits)
  qed
qed

lemma verifyAppVersion_world: "snd (verifyAppVersion this w) = snd (getCosmosAppVersion this w)"
  by (simp add: verifyAppVersion_def bind_def lift_def throw_def return_def
      split: prod.splits sum.splits)

lemma verifyAppVersion_Inr:
  "fst (verifyAppVersion this w) = Inr u \<Longrightarrow> \<exists>v. fst (getCosmosAppVersion this w) = Inr v"
  by (cases "getCosmosAppVersion this w")
    (auto simp: verifyAppVersion_def bind_def split: sum.splits)

lemma verifyAppVersion_trace:
  "\<exists>g. trace (snd (verifyAppVersion this w)) = trace w @ g \<and>
       (map fst g = [AppInfo] \<and> fst (verifyAppVersion this w) \<noteq> Inr ()
        \<or> map fst g = [AppInfo, GetVersion])"
proof (cases "\<exists>v. fst (getCosmosAppVersion this w) = Inr v")
  case True
  then obtain v where v: "fst (getCosmosAppVersion this w) = Inr v" ..
  with getCosmosAppVersion_trace [of this w v] show ?thesis
    by (auto simp: verifyAppVersion_world)
next
  case False
  with verifyAppVersion_Inr [of this w "()"] have "fst (verifyAppVersion this w) \<noteq> Inr ()"
    by blast
  with getCosmosAppVersion_trace [of this w undefined] show ?thesis
    by (auto simp: verifyAppVersion_world)
qed

lemma verifyDeviceIsReady_eq:
  "verifyDeviceIsReady this w =
     (case verifyAppVersion this w of
        (Inl e, w1) \<Rightarrow> (Inl e, w1)
      | (Inr _, w1) \<Rightarrow> verifyCosmosAppIsOpen this w1)"
  by (simp add: verifyDeviceIsReady_def bind_def)

lemma verifyDeviceIsReady_trace:
  "\<exists>g. trace (snd (verifyDeviceIsReady this w)) = trace w @ g \<and>
       (\<forall>x\<in>set g. \<not> is_data_request (fst x)) \<and>
       (fst (verifyDeviceIsReady this w) = Inr () \<longrightarrow> map fst g = [AppInfo, GetVersion, AppInfo])"
proof (cases "verifyAppVersion this w")
  case (Pair res w1)
  from verifyAppVersion_trace [of this w] Pair obtain g where
    g: "trace w1 = trace w @ g"
      "map fst g = [AppInfo] \<and> res \<noteq> Inr () \<or> map fst g = [AppInfo, GetVersion]"
    by auto
  from g(2) have nd: "\<forall>x\<in>set g. \<not> is_data_request (fst x)"
  proof -
    from g(2) have "set (map fst g) \<subseteq> {AppInfo, GetVersion}" by auto
    then have "\<forall>x\<in>set g. fst x \<in> {AppInfo, GetVersion}" by auto
    then show ?thesis by auto
  qed
  show ?thesis
  proof (cases res)
    case (Inl e)
    with Pair g(1) nd show ?thesis
      by (auto simp: verifyDeviceIsReady_eq)
  next
    case (Inr u)
    with g(2) have gv: "map fst g = [AppInfo, GetVersion]" by auto
    let ?a = "(AppInfo, fst (app this (dstate w1) AppInfo))"
    from Pair Inr have "snd (verifyDeviceIsReady this w) = snd (verifyCosmosAppIsOpen this w1)"
      by (simp add: verifyDeviceIsReady_eq)
    with g(1) have "trace (snd (verifyDeviceIsReady this w)) = trace w @ (g @ [?a])"
      by (simp add: verifyCosmosAppIsOpen_world)
    moreover from nd have "\<forall>x\<in>set (g @ [?a]). \<not> is_data_request (fst x)"
      by simp
    moreover from gv have "map fst (g @ [?a]) = [AppInfo, GetVersion, AppInfo]"
      by simp
    ultimately show ?thesis
      by (intro exI [of _ "g @ [?a]"]) simp
  qed
qed

subsection \<open>The operations behind the gate\<close>

lemma getPubkey_eq:
  "getPubkey this hdPath w =
     (case verifyDeviceIsReady this w of
        (Inl e, wg) \<Rightarrow> (Inl e, wg)
      | (Inr _, wg) \<Rightarrow>
          (case hdPathToUse this hdPath of
             None \<Rightarrow> (Inl TypeError, wg)
           | Some p \<Rightarrow>
               (let r = fst (app this (dstate wg) (PublicKey (unharden p)))
                in (case handleLedgerErrors r None of
                      Inl e \<Rightarrow> Inl e
                    | Inr _ \<Rightarrow> Inr (compressed_pk r),
                    \<lparr>dstate = snd (app this (dstate wg) (PublicKey (unharden p))),
                     trace = trace wg @ [(PublicKey (unharden p), r)]\<rparr>))))"
  by (simp add: getPubkey_def bind_def send_def lift_def throw_def return_def Let_def
      split: prod.splits sum.splits option.splits)

lemma sign_eq:
  "sign fromUtf8 fromDerToFixedLength this message hdPath w =
     (case verifyDeviceIsReady this w of
        (Inl e, wg) \<Rightarrow> (Inl e, wg)
      | (Inr _, wg) \<Rightarrow>
          (case hdPathToUse this hdPath of
             None \<Rightarrow> (Inl TypeError, wg)
           | Some p \<Rightarrow>
               (case fromUtf8 message of
                  Inl e \<Rightarrow> (Inl e, wg)
                | Inr text \<Rightarrow>
                    (let r = fst (app this (dstate wg) (Sign (unharden p) text))
                     in (case handleLedgerErrors r (Some signRejectionMessage) of
                           Inl e \<Rightarrow> Inl e
                         | Inr _ \<Rightarrow> fromDerToFixedLength (signature r),
                         \<lparr>dstate = snd (app this (dstate wg) (Sign (unharden p) text)),
                          trace = trace wg @ [(Sign (unharden p) text, r)]\<rparr>)))))"
  by (simp add: sign_def bind_def send_def lift_def throw_def return_def Let_def
      split: prod.splits sum.splits option.splits)

lemma verifyAddress_eq:
  "verifyAddress this hdPath w =
     (case verifyDeviceIsReady this w of
        (Inl e, wg) \<Rightarrow> (Inl e, wg)
      | (Inr _, wg) \<Rightarrow>
          (let rq = ShowAddressAndPubKey (unharden hdPath) ''persistence'';
               r = fst (app this (dstate wg) rq)
           in (case handleLedgerErrors r None of Inl e \<Rightarrow> Inl e | Inr _ \<Rightarrow> Inr r,
               \<lparr>dstate = snd (app this (dstate wg) rq), trace = trace wg @ [(rq, r)]\<rparr>)))"
  by (simp add: verifyAddress_def bind_def send_def lift_def throw_def return_def Let_def
      split: prod.splits sum.splits option.splits)

subsection \<open>The default path\<close>

lemma makeHdPath_default:
  "makeHdPath None None None = Some [0x8000002C, 0x800002EE, 0x80000000, 0, 0]"
  by (simp add: makeHdPath_def stringToPath_def path_components.simps match_component_def
      is_digit_def parse_decimal_def digit_value_def hardened_def normal_def)

lemma unharden_persistenceHdPath: "unharden persistenceHdPath = [44, 750, 0, 0, 0]"
  unfolding persistenceHdPath_def makeHdPath_default
  by (simp add: unharden_def isHardened_def toNumber_def)

subsection \<open>The gate on the scripted device\<close>

lemma semver_gte_sample:
  "semver_gte (versionString sample_response) requiredPersistenceAppVersion = Inr True"
  by (simp add: semver_gte_versionString sample_response_simps MAX_SAFE_INTEGER_def)

lemma verifyDeviceIsReady_scripted:
  assumes "app this = scripted"
  shows "verifyDeviceIsReady this
           \<lparr>dstate = sample_response # sample_response # sample_response # rs, trace = t\<rparr> =
           (Inr (), \<lparr>dstate = rs,
                     trace = t @ [(AppInfo, sample_response), (GetVersion, sample_response),
                                  (AppInfo, sample_response)]\<rparr>)"
proof -
  have "getCosmosAppVersion this
           \<lparr>dstate = sample_response # sample_response # sample_response # rs, trace = t\<rparr> =
          (Inr (versionString sample_response),
           \<lparr>dstate = sample_response # rs,
            trace = t @ [(AppInfo, sample_response), (GetVersion, sample_response)]\<rparr>)"
    by (simp add: getCosmosAppVersion_scripted [OF assms] handleLedgerErrors_sample_response
        sample_response_simps)
  then show ?thesis
    by (simp add: verifyDeviceIsReady_eq verifyAppVersion_eq semver_gte_sample
        verifyCosmosAppIsOpen_scripted [OF assms])
qed

lemma verifyDeviceIsReady_dashboard:
  assumes "app this = scripted"
  shows "verifyDeviceIsReady this
           \<lparr>dstate = sample_response\<lparr>appName := ''Dashboard''\<rparr> # rs, trace = t\<rparr> =
           (Inl (Error msg_WrongScreen),
            \<lparr>dstate = rs, trace = t @ [(AppInfo, sample_response\<lparr>appName := ''Dashboard''\<rparr>)]\<rparr>)"
proof -
  have h: "handleLedgerErrors (sample_response\<lparr>appName := ''Dashboard''\<rparr>) None = Inr ()"
    by (simp add: handleLedgerErrors_ok_iff sample_response_simps)
  have "verifyCosmosAppIsOpen this
           \<lparr>dstate = sample_response\<lparr>appName := ''Dashboard''\<rparr> # rs, trace = t\<rparr> =
           (Inl (Error msg_WrongScreen),
            \<lparr>dstate = rs, trace = t @ [(AppInfo, sample_response\<lparr>appName := ''Dashboard''\<rparr>)]\<rparr>)"
    using getOpenAppName_scripted [OF assms h]
    by (simp add: verifyCosmosAppIsOpen_cases toLowerCase_Dashboard)
  then show ?thesis
    by (simp add: verifyDeviceIsReady_eq verifyAppVersion_def getCosmosAppVersion_open_fails
        bind_Inl)
qed

subsection \<open>Batch key retrieval\<close>

lemma getPubkey_hdPaths_update:
  "getPubkey (this\<lparr>hdPaths := ps\<rparr>) (Some p) = getPubkey this (Some p)"
  by (simp add: getPubkey_def hdPathToUse_def verifyDeviceIsReady_def verifyAppVersion_def
      getCosmosAppVersion_def verifyCosmosAppIsOpen_def getOpenAppName_def verifyAppMode_def)

lemma getPubkeys_update_same: "getPubkeys (this\<lparr>hdPaths := hdPaths this\<rparr>) = getPubkeys this"
  by simp

lemma getPubkeys_Nil: "getPubkeys (this\<lparr>hdPaths := []\<rparr>) w = (Inr [], w)"
  by (simp add: getPubkeys_def return_def)

lemma getPubkeys_snoc:
  "getPubkeys (this\<lparr>hdPaths := ps @ [p]\<rparr>) w =
     (case getPubkeys (this\<lparr>hdPaths := ps\<rparr>) w of
        (Inl e, w1) \<Rightarrow> (Inl e, w1)
      | (Inr keys, w1) \<Rightarrow>
          (case getPubkey this (Some p) w1 of
             (Inl e, w2) \<Rightarrow> (Inl e, w2)
           | (Inr k, w2) \<Rightarrow> (Inr (keys @ [k]), w2)))"
  by (simp add: getPubkeys_def getPubkey_hdPaths_update bind_def return_def
      split: prod.splits sum.splits)

lemma getPubkeys_append_Inl:
  "getPubkeys (this\<lparr>hdPaths := ps\<rparr>) w = (Inl e, w') \<Longrightarrow>
   getPubkeys (this\<lparr>hdPaths := ps @ qs\<rparr>) w = (Inl e, w')"
proof (induction qs rule: rev_induct)
  case Nil
  then show ?case by simp
next
  case (snoc q qs)
  then have "getPubkeys (this\<lparr>hdPaths := ps @ qs\<rparr>) w = (Inl e, w')" by simp
  then have "getPubkeys (this\<lparr>hdPaths := (ps @ qs) @ [q]\<rparr>) w = (Inl e, w')"
    by (simp only: getPubkeys_snoc) simp
  then show ?case by simp
qed

lemma getPubkey_Inr:
  assumes "getPubkey this (Some p) w = (Inr k, w')"
  shows "\<exists>g r. trace w' = trace w @ g @ [(PublicKey (unharden p), r)] \<and>
               map fst g = [AppInfo, GetVersion, AppInfo] \<and>
               (\<forall>x\<in>set g. \<not> is_data_request (fst x)) \<and> k = compressed_pk r"
proof (cases "verifyDeviceIsReady this w")
  case (Pair res wg)
  show ?thesis
  proof (cases res)
    case (Inl e)
    with Pair assms show ?thesis by (simp add: getPubkey_eq)
  next
    case (Inr u)
    with Pair verifyDeviceIsReady_trace [of this w] obtain g where
      g: "trace wg = trace w @ g" "\<forall>x\<in>set g. \<not> is_data_request (fst x)"
         "map fst g = [AppInfo, GetVersion, AppInfo]"
      by auto
    let ?r = "fst (app this (dstate wg) (PublicKey (unharden p)))"
    from Pair Inr assms have "trace w' = trace wg @ [(PublicKey (unharden p), ?r)]"
      and "k = compressed_pk ?r"
      by (auto simp: getPubkey_eq hdPathToUse_def Let_def split: sum.splits)
    with g show ?thesis by auto
  qed
qed

lemma getPubkeys_Inr:
  "getPubkeys (this\<lparr>hdPaths := ps\<rparr>) w = (Inr keys, w') \<Longrightarrow>
   \<exists>n. trace w' = trace w @ n \<and>
       map fst n = concat (map (\<lambda>p. [AppInfo, GetVersion, AppInfo, PublicKey (unharden p)]) ps) \<and>
       map fst (filter (\<lambda>x. is_data_request (fst x)) n) = map (\<lambda>p. PublicKey (unharden p)) ps \<and>
       keys = map (\<lambda>x. compressed_pk (snd x)) (filter (\<lambda>x. is_data_request (fst x)) n)"
proof (induction ps arbitrary: keys w' rule: rev_induct)
  case Nil
  then show ?case by (simp add: getPubkeys_Nil)
next
  case (snoc p ps)
  from snoc.prems obtain ks w1 k where
    prefix: "getPubkeys (this\<lparr>hdPaths := ps\<rparr>) w = (Inr ks, w1)" and
    last: "getPubkey this (Some p) w1 = (Inr k, w')" and
    keys: "keys = ks @ [k]"
    by (auto simp: getPubkeys_snoc split: prod.splits sum.splits)
  from snoc.IH [OF prefix] obtain n where
    n: "trace w1 = trace w @ n"
       "map fst n = concat (map (\<lambda>p. [AppInfo, GetVersion, AppInfo, PublicKey (unharden p)]) ps)"
       "map fst (filter (\<lambda>x. is_data_request (fst x)) n) = map (\<lambda>p. PublicKey (unharden p)) ps"
       "ks = map (\<lambda>x. compressed_pk (snd x)) (filter (\<lambda>x. is_data_request (fst x)) n)"
    by blast
  from getPubkey_Inr [OF last] obtain g r where
    g: "trace w' = trace w1 @ g @ [(PublicKey (unharden p), r)]"
       "map fst g = [AppInfo, GetVersion, AppInfo]"
       "\<forall>x\<in>set g. \<not> is_data_request (fst x)" "k = compressed_pk r"
    by auto
  from g(3) have fg: "filter (\<lambda>x. is_data_request (fst x)) g = []"
    by (simp add: filter_empty_conv)
  let ?n = "n @ g @ [(PublicKey (unharden p), r)]"
  from n g keys fg have
    "trace w' = trace w @ ?n \<and>
     map fst ?n = concat (map (\<lambda>p. [AppInfo, GetVersion, AppInfo, PublicKey (unharden p)]) (ps @ [p])) \<and>
     map fst (filter (\<lambda>x. is_data_request (fst x)) ?n) = map (\<lambda>p. PublicKey (unharden p)) (ps @ [p]) \<and>
     keys = map (\<lambda>x. compressed_pk (snd x)) (filter (\<lambda>x. is_data_request (fst x)) ?n)"
    by simp
  then show ?case by blast
qed

lemma getPubkeys_Inl:
  "getPubkeys (this\<lparr>hdPaths := ps\<rparr>) w = (Inl e, w') \<Longrightarrow>
   \<exists>qs p rs ks w1. ps = qs @ p # rs \<and> getPubkeys (this\<lparr>hdPaths := qs\<rparr>) w = (Inr ks, w1) \<and>
       getPubkey this (Some p) w1 = (Inl e, w')"
proof (induction ps rule: rev_induct)
  case Nil
  then show ?case by (simp add: getPubkeys_Nil)
next
  case (snoc p ps)
  show ?case
  proof (cases "getPubkeys (this\<lparr>hdPaths := ps\<rparr>) w")
    case (Pair res w1)
    show ?thesis
    proof (cases res)
      case (Inl e')
      with Pair snoc.prems have "getPubkeys (this\<lparr>hdPaths := ps\<rparr>) w = (Inl e, w')"
        by (simp add: getPubkeys_snoc)
      from snoc.IH [OF this] obtain qs q rs ks w2 where
        "ps = qs @ q # rs" "getPubkeys (this\<lparr>hdPaths := qs\<rparr>) w = (Inr ks, w2)"
        "getPubkey this (Some q) w2 = (Inl e, w')"
        by blast
      then have "ps @ [p] = qs @ q # (rs @ [p]) \<and>
          getPubkeys (this\<lparr>hdPaths := qs\<rparr>) w = (Inr ks, w2) \<and>
          getPubkey this (Some q) w2 = (Inl e, w')"
        by simp
      then show ?thesis by blast
    next
      case (Inr ks)
      with Pair snoc.prems have "getPubkey this (Some p) w1 = (Inl e, w')"
        by (auto simp: getPubkeys_snoc split: prod.splits sum.splits)
      with Pair Inr have "ps @ [p] = ps @ p # [] \<and>
          getPubkeys (this\<lparr>hdPaths := ps\<rparr>) w = (Inr ks, w1) \<and>
          getPubkey this (Some p) w1 = (Inl e, w')"
        by simp
      then show ?thesis by blast
    qed
  qed
qed

text \<open>
  Claim C4. When \<open>getPubkeys\<close> succeeds it has sent, for each configured path in
  order, the three gate queries and then one key request for that path, so exactly
  as many key requests as paths, and it returns the keys of the responses in that
  order. When the call for a path fails after the calls for the paths before it
  succeeded, \<open>getPubkeys\<close> fails with that error in the world of the failure: no
  keys are returned and nothing is sent for the later paths. Every failure of
  \<open>getPubkeys\<close> is of this form.
\<close>

theorem getPubkeys_sequential:
  "(getPubkeys this w = (Inr keys, w') \<longrightarrow>
       trace w' = trace w @ new_entries w w'
     \<and> map fst (new_entries w w') =
         concat (map (\<lambda>p. [AppInfo, GetVersion, AppInfo, PublicKey (unharden p)]) (hdPaths this))
     \<and> map fst (filter (\<lambda>x. is_data_request (fst x)) (new_entries w w')) =
         map (\<lambda>p. PublicKey (unharden p)) (hdPaths this)
     \<and> keys = map (\<lambda>x. compressed_pk (snd x))
                (filter (\<lambda>x. is_data_request (fst x)) (new_entries w w'))
     \<and> length keys = length (hdPaths this))
   \<and> (hdPaths this = ps @ p # qs \<and> getPubkeys (this\<lparr>hdPaths := ps\<rparr>) w = (Inr ks, w1) \<and>
      getPubkey this (Some p) w1 = (Inl e, w2) \<longrightarrow>
        getPubkeys this w = (Inl e, w2))
   \<and> (getPubkeys this w = (Inl e', w'') \<longrightarrow>
        (\<exists>ps p qs ks w1. hdPaths this = ps @ p # qs \<and>
            getPubkeys (this\<lparr>hdPaths := ps\<rparr>) w = (Inr ks, w1) \<and>
            getPubkey this (Some p) w1 = (Inl e', w'')))"
    (is "?ok \<and> ?stop \<and> ?why")
proof (intro conjI)
  show ?ok
  proof
    assume "getPubkeys this w = (Inr keys, w')"
    then have "getPubkeys (this\<lparr>hdPaths := hdPaths this\<rparr>) w = (Inr keys, w')"
      by simp
    from getPubkeys_Inr [OF this] obtain n where
      n: "trace w' = trace w @ n"
         "map fst n =
            concat (map (\<lambda>p. [AppInfo, GetVersion, AppInfo, PublicKey (unharden p)]) (hdPaths this))"
         "map fst (filter (\<lambda>x. is_data_request (fst x)) n) =
            map (\<lambda>p. PublicKey (unharden p)) (hdPaths this)"
         "keys = map (\<lambda>x. compressed_pk (snd x)) (filter (\<lambda>x. is_data_request (fst x)) n)"
      by auto
    from n(1) have new: "new_entries w w' = n"
      by (simp add: new_entries_def)
    from n(3,4) have "length keys = length (hdPaths this)"
      by (metis length_map)
    with n new show "trace w' = trace w @ new_entries w w'
     \<and> map fst (new_entries w w') =
         concat (map (\<lambda>p. [AppInfo, GetVersion, AppInfo, PublicKey (unharden p)]) (hdPaths this))
     \<and> map fst (filter (\<lambda>x. is_data_request (fst x)) (new_entries w w')) =
         map (\<lambda>p. PublicKey (unharden p)) (hdPaths this)
     \<and> keys = map (\<lambda>x. compressed_pk (snd x))
                (filter (\<lambda>x. is_data_request (fst x)) (new_entries w w'))
     \<and> length keys = length (hdPaths this)"
      by simp
  qed
next
  show ?stop
  proof
    assume a: "hdPaths this = ps @ p # qs \<and> getPubkeys (this\<lparr>hdPaths := ps\<rparr>) w = (Inr ks, w1) \<and>
        getPubkey this (Some p) w1 = (Inl e, w2)"
    then have "getPubkeys (this\<lparr>hdPaths := ps @ [p]\<rparr>) w = (Inl e, w2)"
      by (simp add: getPubkeys_snoc)
    from getPubkeys_append_Inl [OF this, of qs] have
      "getPubkeys (this\<lparr>hdPaths := ps @ p # qs\<rparr>) w = (Inl e, w2)"
      by simp
    with a have "getPubkeys (this\<lparr>hdPaths := hdPaths this\<rparr>) w = (Inl e, w2)"
      by simp
    then show "getPubkeys this w = (Inl e, w2)"
      by simp
  qed
next
  show ?why
  proof
    assume "getPubkeys this w = (Inl e', w'')"
    then have "getPubkeys (this\<lparr>hdPaths := hdPaths this\<rparr>) w = (Inl e', w'')"
      by simp
    from getPubkeys_Inl [OF this]
    show "\<exists>ps p qs ks w1. hdPaths this = ps @ p # qs \<and>
            getPubkeys (this\<lparr>hdPaths := ps\<rparr>) w = (Inr ks, w1) \<and>
            getPubkey this (Some p) w1 = (Inl e', w'')"
      by blast
  qed
qed

lemma getPubkey_scripted:
  assumes "app this = scripted"
  shows "getPubkey this (Some p)
           \<lparr>dstate = sample_response # sample_response # sample_response # r # rs, trace = t\<rparr> =
           (case handleLedgerErrors r None of Inl e \<Rightarrow> Inl e | Inr _ \<Rightarrow> Inr (compressed_pk r),
            \<lparr>dstate = rs,
             trace = t @ [(AppInfo, sample_response), (GetVersion, sample_response),
                          (AppInfo, sample_response), (PublicKey (unharden p), r)]\<rparr>)"
  by (simp add: getPubkey_eq verifyDeviceIsReady_scripted [OF assms] hdPathToUse_def assms)

lemma unharden_second_path: "unharden second_path = [44, 750, 1, 0, 5]"
proof -
  have "makeHdPath (Some ''1'') (Some ''5'') None =
          Some [0x8000002C, 0x800002EE, 0x80000001, 0, 5]"
    by (simp add: makeHdPath_def stringToPath_def path_components.simps match_component_def
        is_digit_def parse_decimal_def digit_value_def hardened_def normal_def)
  then show ?thesis
    by (simp add: second_path_def unharden_def isHardened_def toNumber_def)
qed

lemma two_path_ledger_simps:
  "app two_path_ledger = scripted" "hdPaths two_path_ledger = [persistenceHdPath, second_path]"
  by (simp_all add: two_path_ledger_def sample_ledger_simps)

lemma handleLedgerErrors_key_response: "handleLedgerErrors (key_response k) m = Inr ()"
  by (simp add: handleLedgerErrors_ok_iff key_response_def sample_response_simps)

lemma compressed_pk_key_response: "compressed_pk (key_response k) = k"
  by (simp add: key_response_def)

lemma getPubkeys_two_paths:
  "getPubkeys two_path_ledger
     (start [sample_response, sample_response, sample_response, key_response [2, 1],
             sample_response, sample_response, sample_response, key_response [3, 2]]) =
   (Inr [[2, 1], [3, 2]],
    \<lparr>dstate = [],
     trace = [(AppInfo, sample_response), (GetVersion, sample_response),
              (AppInfo, sample_response), (PublicKey [44, 750, 0, 0, 0], key_response [2, 1]),
              (AppInfo, sample_response), (GetVersion, sample_response),
              (AppInfo, sample_response), (PublicKey [44, 750, 1, 0, 5], key_response [3, 2])]\<rparr>)"
  by (simp add: getPubkeys_def two_path_ledger_simps bind_def return_def start_def
      getPubkey_scripted handleLedgerErrors_key_response unharden_persistenceHdPath
      unharden_second_path compressed_pk_key_response)

lemma getPubkeys_first_path:
  "getPubkeys (two_path_ledger\<lparr>hdPaths := [persistenceHdPath]\<rparr>)
     (start (sample_response # sample_response # sample_response # key_response [2, 1] # rs)) =
   (Inr [[2, 1]],
    \<lparr>dstate = rs,
     trace = [(AppInfo, sample_response), (GetVersion, sample_response),
              (AppInfo, sample_response), (PublicKey [44, 750, 0, 0, 0], key_response [2, 1])]\<rparr>)"
  by (simp add: getPubkeys_def two_path_ledger_simps bind_def return_def start_def
      getPubkey_scripted handleLedgerErrors_key_response unharden_persistenceHdPath
      compressed_pk_key_response)

lemma getPubkey_second_locked:
  "getPubkey two_path_ledger (Some second_path)
     \<lparr>dstate = [sample_response, sample_response, sample_response,
                key_response [3, 2]\<lparr>device_locked := Some True\<rparr>],
      trace = t\<rparr> =
   (Inl (Error msg_DeviceLocked),
    \<lparr>dstate = [],
     trace = t @ [(AppInfo, sample_response), (GetVersion, sample_response),
              (AppInfo, sample_response),
              (PublicKey [44, 750, 1, 0, 5], key_response [3, 2]\<lparr>device_locked := Some True\<rparr>)]\<rparr>)"
  by (simp add: getPubkey_scripted two_path_ledger_simps handleLedgerErrors_locked
      unharden_second_path)

theorem getPubkeys_sequential_witness:
  "map fst (filter (\<lambda>x. is_data_request (fst x))
     (new_entries
        (start [sample_response, sample_response, sample_response, key_response [2, 1],
                sample_response, sample_response, sample_response, key_response [3, 2]])
        (snd (getPubkeys two_path_ledger
           (start [sample_response, sample_response, sample_response, key_response [2, 1],
                   sample_response, sample_response, sample_response, key_response [3, 2]])))))
     = [PublicKey [44, 750, 0, 0, 0], PublicKey [44, 750, 1, 0, 5]]
   \<and> fst (getPubkeys two_path_ledger
        (start [sample_response, sample_response, sample_response, key_response [2, 1],
                sample_response, sample_response, sample_response, key_response [3, 2]]))
     = Inr [[2, 1], [3, 2]]
   \<and> getPubkeys two_path_ledger
        (start [sample_response, sample_response, sample_response, key_response [2, 1],
                sample_response, sample_response, sample_response,
                key_response [3, 2]\<lparr>device_locked := Some True\<rparr>])
     = (Inl (Error msg_DeviceLocked),
        \<lparr>dstate = [],
         trace = [(AppInfo, sample_response), (GetVersion, sample_response),
              (AppInfo, sample_response), (PublicKey [44, 750, 0, 0, 0], key_response [2, 1]),
              (AppInfo, sample_response), (GetVersion, sample_response),
              (AppInfo, sample_response),
              (PublicKey [44, 750, 1, 0, 5], key_response [3, 2]\<lparr>device_locked := Some True\<rparr>)]\<rparr>)"
proof -
  note ok = getPubkeys_sequential [THEN conjunct1, THEN mp, OF getPubkeys_two_paths]
  have paths: "hdPaths two_path_ledger = [persistenceHdPath] @ second_path # []"
    by (simp add: two_path_ledger_simps)
  note stop = getPubkeys_sequential [THEN conjunct2, THEN conjunct1, THEN mp,
      OF conjI [OF paths conjI [OF getPubkeys_first_path getPubkey_second_locked]]]
  from ok stop show ?thesis
    by (simp add: getPubkeys_two_paths two_path_ledger_simps unharden_persistenceHdPath
        unharden_second_path)
qed

subsection \<open>Unhardening\<close>

lemma toNumber_word_of_nat: "n < 2 ^ 32 \<Longrightarrow> toNumber (word_of_nat n) = int n"
  by (simp add: toNumber_def uint_nat unat_of_nat take_bit_nat_eq_self)

lemma toNumber_hardened:
  "n < 2 ^ 31 \<Longrightarrow> hardened n = Some i \<Longrightarrow> toNumber i = int n + 2 ^ 31"
  using toNumber_word_of_nat [of "n + 2 ^ 31"] by (auto simp: hardened_def)

lemma unharden_hardened:
  "n < 2 ^ 31 \<Longrightarrow> hardened n = Some i \<Longrightarrow> unharden [i] = [int n]"
  by (simp add: unharden_def isHardened_def toNumber_hardened)

lemma unharden_normal:
  "n < 2 ^ 31 \<Longrightarrow> normal n = Some i \<Longrightarrow> unharden [i] = [int n]"
  by (auto simp: normal_def unharden_def isHardened_def toNumber_word_of_nat)

lemma unharden_Cons: "unharden (i # path) = unharden [i] @ unharden path"
  by (simp add: unharden_def)

lemma segment_defined:
  "n < 2 ^ 31 \<Longrightarrow> \<exists>i. (if h then hardened n else normal n) = Some i"
  by (simp add: hardened_def normal_def)

lemma unharden_segments:
  "\<forall>s\<in>set segs. snd s < 2 ^ 31 \<Longrightarrow>
   map_option unharden (those (map (\<lambda>s. if fst s then hardened (snd s) else normal (snd s)) segs))
     = Some (map (\<lambda>s. int (snd s)) segs)"
proof (induction segs)
  case Nil
  then show ?case by (simp add: unharden_def)
next
  case (Cons s segs)
  then have small: "snd s < 2 ^ 31" by simp
  from segment_defined [OF small, of "fst s"] obtain i where
    i: "(if fst s then hardened (snd s) else normal (snd s)) = Some i" ..
  with small have u: "unharden [i] = [int (snd s)]"
    by (cases "fst s") (simp_all add: unharden_hardened unharden_normal)
  from Cons obtain path where
    path: "those (map (\<lambda>s. if fst s then hardened (snd s) else normal (snd s)) segs) = Some path"
      "unharden path = map (\<lambda>s. int (snd s)) segs"
    by auto
  from i path u show ?case
    by (simp add: unharden_Cons [of i path])
qed

text \<open>
  Claim C8. \<open>unharden\<close> keeps the length of a path and maps each segment to its
  stored value, less \<open>2 ^ 31\<close> when the segment is hardened. It undoes the encoding: a
  path built from hardened and normal segments with values below \<open>2 ^ 31\<close> unhardens
  to those values. The default path is \<open>44'\<close>, \<open>750'\<close>, \<open>0'\<close>, \<open>0\<close>, \<open>0\<close> and
  unhardens to 44, 750, 0, 0, 0.
\<close>

theorem unharden_round_trip:
  "length (unharden path) = length path
   \<and> (\<forall>i<length path. unharden path ! i =
         (if isHardened (path ! i) then toNumber (path ! i) - 2 ^ 31 else toNumber (path ! i)))
   \<and> ((\<forall>s\<in>set segs. snd s < 2 ^ 31) \<longrightarrow>
        map_option unharden
          (those (map (\<lambda>s. if fst s then hardened (snd s) else normal (snd s)) segs))
          = Some (map (\<lambda>s. int (snd s)) segs))
   \<and> makeHdPath None None None = those [hardened 44, hardened 750, hardened 0, normal 0, normal 0]
   \<and> unharden persistenceHdPath = [44, 750, 0, 0, 0]"
proof (intro conjI)
  show "length (unharden path) = length path"
    by (simp add: unharden_def)
  show "\<forall>i<length path. unharden path ! i =
         (if isHardened (path ! i) then toNumber (path ! i) - 2 ^ 31 else toNumber (path ! i))"
    by (simp add: unharden_def)
  show "(\<forall>s\<in>set segs. snd s < 2 ^ 31) \<longrightarrow>
        map_option unharden
          (those (map (\<lambda>s. if fst s then hardened (snd s) else normal (snd s)) segs))
          = Some (map (\<lambda>s. int (snd s)) segs)"
    using unharden_segments [of segs] by blast
  show "makeHdPath None None None = those [hardened 44, hardened 750, hardened 0, normal 0, normal 0]"
    by (simp add: makeHdPath_default hardened_def normal_def)
  show "unharden persistenceHdPath = [44, 750, 0, 0, 0]"
    by (rule unharden_persistenceHdPath)
qed

theorem unharden_round_trip_witness:
  "map_option unharden
     (those [hardened 44, hardened 750, hardened 0, normal 0, normal 0]) = Some [44, 750, 0, 0, 0]
   \<and> unharden [0x8000002C, 7] ! 0 = 44 \<and> unharden [0x8000002C, 7] ! 1 = 7"
proof -
  have small: "\<forall>s\<in>set [(True, 44), (True, 750), (True, 0), (False, 0), (False, 0 :: nat)].
      snd s < 2 ^ 31"
    by simp
  note segs = unharden_round_trip [THEN conjunct2, THEN conjunct2, THEN conjunct1, THEN mp,
      OF small]
  note nth = unharden_round_trip [THEN conjunct2, THEN conjunct1, of "[0x8000002C, 7]"]
  from nth [THEN spec, of 0] nth [THEN spec, of 1]
  have "unharden [0x8000002C, 7] ! 0 = 44 \<and> unharden [0x8000002C, 7] ! 1 = 7"
    by (simp add: isHardened_def toNumber_def)
  with segs show ?thesis by simp
qed

subsection \<open>Addresses\<close>

text \<open>
  Claim C9. With a key given, \<open>getCosmosAddress\<close> only encodes it with the configured
  prefix: the world is unchanged, so nothing is sent. With no key it is one
  \<open>getPubkey\<close> on the default path followed by the encoding of the key obtained; when
  that call succeeds, the exchanges made are the gate queries and one key request for
  the first configured path.
\<close>

theorem getCosmosAddress_round_trips:
  "getCosmosAddress getBech32FromPK this (Some k) w = (getBech32FromPK (prefix this) k, w)
   \<and> new_entries w (snd (getCosmosAddress getBech32FromPK this (Some k) w)) = []
   \<and> getCosmosAddress getBech32FromPK this None w =
       (case getPubkey this None w of
          (Inl e, w') \<Rightarrow> (Inl e, w')
        | (Inr k', w') \<Rightarrow> (getBech32FromPK (prefix this) k', w'))
   \<and> (fst (getPubkey this None w) = Inr k' \<longrightarrow>
        (\<exists>p ps. hdPaths this = p # ps \<and>
           map fst (new_entries w (snd (getCosmosAddress getBech32FromPK this None w))) =
             [AppInfo, GetVersion, AppInfo, PublicKey (unharden p)]))"
    (is "?given \<and> ?silent \<and> ?absent \<and> ?once")
proof (intro conjI)
  show ?given
    by (simp add: getCosmosAddress_def bind_return lift_def)
  then show ?silent
    by (simp add: new_entries_def)
  show absent: ?absent
    by (simp add: getCosmosAddress_def bind_def lift_def split: prod.splits sum.splits)
  show ?once
  proof
    assume ok: "fst (getPubkey this None w) = Inr k'"
    then obtain w' where run: "getPubkey this None w = (Inr k', w')"
      by (cases "getPubkey this None w") simp
    with absent have world: "snd (getCosmosAddress getBech32FromPK this None w) = w'"
      by simp
    from run obtain p ps where paths: "hdPaths this = p # ps"
      by (cases "hdPaths this")
        (auto simp: getPubkey_eq hdPathToUse_def split: prod.splits sum.splits)
    then have "getPubkey this None = getPubkey this (Some p)"
      by (simp add: getPubkey_def hdPathToUse_def)
    with run have "getPubkey this (Some p) w = (Inr k', w')" by simp
    from getPubkey_Inr [OF this] obtain g r where
      "trace w' = trace w @ g @ [(PublicKey (unharden p), r)]"
      "map fst g = [AppInfo, GetVersion, AppInfo]"
      by auto
    then have "map fst (new_entries w w') = [AppInfo, GetVersion, AppInfo, PublicKey (unharden p)]"
      by (simp add: new_entries_def)
    with paths world
    show "\<exists>p ps. hdPaths this = p # ps \<and>
           map fst (new_entries w (snd (getCosmosAddress getBech32FromPK this None w))) =
             [AppInfo, GetVersion, AppInfo, PublicKey (unharden p)]"
      by simp
  qed
qed

lemma getPubkey_sample:
  "getPubkey sample_ledger None
     (start [sample_response, sample_response, sample_response, key_response [2, 1]]) =
   (Inr [2, 1],
    \<lparr>dstate = [],
     trace = [(AppInfo, sample_response), (GetVersion, sample_response),
              (AppInfo, sample_response), (PublicKey [44, 750, 0, 0, 0], key_response [2, 1])]\<rparr>)"
proof -
  have "getPubkey sample_ledger None = getPubkey sample_ledger (Some persistenceHdPath)"
    by (simp add: getPubkey_def hdPathToUse_def sample_ledger_simps)
  then show ?thesis
    by (simp add: start_def getPubkey_scripted sample_ledger_simps
        handleLedgerErrors_key_response unharden_persistenceHdPath compressed_pk_key_response)
qed

theorem getCosmosAddress_round_trips_witness:
  "getCosmosAddress sample_bech32 sample_ledger (Some [2, 1]) (start [sample_response]) =
     (Inr (''persistence1'' @ [char_of (2 :: nat), char_of (1 :: nat)]), start [sample_response])
   \<and> getCosmosAddress sample_bech32 sample_ledger None
       (start [sample_response, sample_response, sample_response, key_response [2, 1]]) =
     (Inr (''persistence1'' @ [char_of (2 :: nat), char_of (1 :: nat)]),
      \<lparr>dstate = [],
       trace = [(AppInfo, sample_response), (GetVersion, sample_response),
                (AppInfo, sample_response), (PublicKey [44, 750, 0, 0, 0], key_response [2, 1])]\<rparr>)"
  using getCosmosAddress_round_trips [of sample_bech32 sample_ledger "[2, 1]"
      "start [sample_response]", THEN conjunct1]
    getCosmosAddress_round_trips [of sample_bech32 sample_ledger _
      "start [sample_response, sample_response, sample_response, key_response [2, 1]]",
      THEN conjunct2, THEN conjunct2, THEN conjunct1]
  by (simp add: getPubkey_sample sample_bech32_def sample_ledger_simps)

subsection \<open>An empty path list\<close>

lemma getPubkey_no_path:
  "hdPaths this = [] \<Longrightarrow> verifyDeviceIsReady this w = (Inr (), wg) \<Longrightarrow>
   getPubkey this None w = (Inl TypeError, wg)"
  by (simp add: getPubkey_eq hdPathToUse_def)

lemma sign_hdPaths_update:
  "sign fromUtf8 fromDerToFixedLength (this\<lparr>hdPaths := ps\<rparr>) message (Some p) =
   sign fromUtf8 fromDerToFixedLength this message (Some p)"
  by (simp add: sign_def hdPathToUse_def verifyDeviceIsReady_def verifyAppVersion_def
      getCosmosAppVersion_def verifyCosmosAppIsOpen_def getOpenAppName_def verifyAppMode_def)

lemma verifyAddress_hdPaths_update:
  "verifyAddress (this\<lparr>hdPaths := ps\<rparr>) p = verifyAddress this p"
  by (simp add: verifyAddress_def verifyDeviceIsReady_def verifyAppVersion_def
      getCosmosAppVersion_def verifyCosmosAppIsOpen_def getOpenAppName_def verifyAppMode_def)

lemma empty_ledger_simps:
  "app empty_ledger = scripted" "hdPaths empty_ledger = []"
  by (simp_all add: empty_ledger_def new_LaunchpadLedger_def)

text \<open>
  Claim C10, as stated, fails where an operation falls back to the first configured
  path. The session below is constructed with an empty list. On a device that passes
  the gate, \<open>getPubkey\<close> with no path fails with a \<open>TypeError\<close> after the three gate
  queries, and so do \<open>sign\<close> with no path and \<open>getCosmosAddress\<close> with no key; the
  session with the default list gets its key from the same device.
\<close>

theorem empty_paths_counterexample:
  "hdPaths empty_ledger = []
   \<and> getPubkey empty_ledger None
       (start [sample_response, sample_response, sample_response, key_response [2, 1]]) =
     (Inl TypeError,
      \<lparr>dstate = [key_response [2, 1]],
       trace = [(AppInfo, sample_response), (GetVersion, sample_response),
                (AppInfo, sample_response)]\<rparr>)
   \<and> fst (sign sample_fromUtf8 sample_fromDer empty_ledger [104, 105] None
       (start [sample_response, sample_response, sample_response, key_response [2, 1]])) =
     Inl TypeError
   \<and> fst (getCosmosAddress sample_bech32 empty_ledger None
       (start [sample_response, sample_response, sample_response, key_response [2, 1]])) =
     Inl TypeError
   \<and> fst (getPubkey sample_ledger None
       (start [sample_response, sample_response, sample_response, key_response [2, 1]])) =
     Inr [2, 1]"
proof -
  have gate: "verifyDeviceIsReady empty_ledger
      (start [sample_response, sample_response, sample_response, key_response [2, 1]]) =
      (Inr (), \<lparr>dstate = [key_response [2, 1]],
       trace = [(AppInfo, sample_response), (GetVersion, sample_response),
                (AppInfo, sample_response)]\<rparr>)"
    by (simp add: start_def verifyDeviceIsReady_scripted empty_ledger_simps)
  have no_path: "hdPathToUse empty_ledger None = None"
    by (simp add: hdPathToUse_def empty_ledger_simps)
  have key: "getPubkey empty_ledger None
       (start [sample_response, sample_response, sample_response, key_response [2, 1]]) =
     (Inl TypeError,
      \<lparr>dstate = [key_response [2, 1]],
       trace = [(AppInfo, sample_response), (GetVersion, sample_response),
                (AppInfo, sample_response)]\<rparr>)"
    by (rule getPubkey_no_path [OF empty_ledger_simps(2) gate])
  have signing: "fst (sign sample_fromUtf8 sample_fromDer empty_ledger [104, 105] None
       (start [sample_response, sample_response, sample_response, key_response [2, 1]])) =
     Inl TypeError"
    by (simp add: sign_eq gate no_path)
  have address: "fst (getCosmosAddress sample_bech32 empty_ledger None
       (start [sample_response, sample_response, sample_response, key_response [2, 1]])) =
     Inl TypeError"
    using key by (simp add: getCosmosAddress_def bind_def)
  from key signing address show ?thesis
    by (simp add: empty_ledger_simps getPubkey_sample)
qed

text \<open>
  Claim C10, amended. The constructor stores an empty path list as given. With no
  path configured \<open>getPubkeys\<close> returns the empty list of keys and leaves the world as
  it was: no gate query, no key request. The operations that are given a path do not
  look at the configured list, so they behave as with any other list.
\<close>

theorem getPubkeys_empty:
  "hdPaths (new_LaunchpadLedger transport (options\<lparr>opt_hdPaths := Some []\<rparr>)) = []
   \<and> (hdPaths this = [] \<longrightarrow> getPubkeys this w = (Inr [], w))
   \<and> getPubkey (this\<lparr>hdPaths := []\<rparr>) (Some p) = getPubkey this (Some p)
   \<and> sign fromUtf8 fromDerToFixedLength (this\<lparr>hdPaths := []\<rparr>) message (Some p) =
       sign fromUtf8 fromDerToFixedLength this message (Some p)
   \<and> verifyAddress (this\<lparr>hdPaths := []\<rparr>) p = verifyAddress this p"
  by (simp add: new_LaunchpadLedger_def getPubkeys_def return_def getPubkey_hdPaths_update
      sign_hdPaths_update verifyAddress_hdPaths_update)

theorem getPubkeys_empty_witness:
  "getPubkeys
     (new_LaunchpadLedger scripted \<lparr>opt_hdPaths = Some [], opt_prefix = None, opt_testModeAllowed = None\<rparr>)
     (start [sample_response]) = (Inr [], start [sample_response])"
proof -
  have "hdPaths (new_LaunchpadLedger scripted
      \<lparr>opt_hdPaths = Some [], opt_prefix = None, opt_testModeAllowed = None\<rparr>) = []"
    by (simp add: new_LaunchpadLedger_def)
  with getPubkeys_empty [THEN conjunct2, THEN conjunct1] show ?thesis
    by blast
qed

subsection \<open>The rejection message\<close>

text \<open>
  Claim C7, as stated, fails on a locked device: the response below carries the text
  \<open>Transaction rejected\<close> and the locked flag, and the failure is the screensaver
  message, not the rejection message the caller supplied, both in
  \<open>handleLedgerErrors\<close> and in \<open>sign\<close>.
\<close>

theorem rejection_message_counterexample:
  "error_message (sample_response\<lparr>error_message := Some ''Transaction rejected'',
       device_locked := Some True\<rparr>) = Some ''Transaction rejected''
   \<and> handleLedgerErrors (sample_response\<lparr>error_message := Some ''Transaction rejected'',
       device_locked := Some True\<rparr>) (Some signRejectionMessage) = Inl (Error msg_DeviceLocked)
   \<and> fst (sign sample_fromUtf8 sample_fromDer sample_ledger [104, 105] None
       (start [sample_response, sample_response, sample_response,
               sample_response\<lparr>error_message := Some ''Transaction rejected'',
                 device_locked := Some True\<rparr>])) = Inl (Error msg_DeviceLocked)
   \<and> Error msg_DeviceLocked \<noteq> Error signRejectionMessage"
proof -
  have a: "app sample_ledger = scripted"
    by (simp add: sample_ledger_simps)
  show ?thesis
    by (simp add: handleLedgerErrors_locked sign_eq start_def verifyDeviceIsReady_scripted [OF a]
        hdPathToUse_def sample_ledger_simps sample_fromUtf8_def msg_DeviceLocked_def
        signRejectionMessage_def)
qed

text \<open>
  Claim C7, amended. For every rejection message \<open>m\<close> the caller supplies, a response
  that is not locked and carries the text \<open>Transaction rejected\<close> gives the failure
  with message \<open>m\<close>. \<open>sign\<close> supplies its own message: when the gate has passed and
  the response to the sign request is not locked and carries that text, \<open>sign\<close> fails
  with \<open>Transaction signing request was rejected by the user\<close>.
\<close>

theorem rejection_message:
  "(device_locked r \<noteq> Some True \<and> error_message r = Some ''Transaction rejected'' \<longrightarrow>
      handleLedgerErrors r (Some m) = Inl (Error m))
   \<and> (verifyDeviceIsReady this w = (Inr (), wg) \<and> hdPathToUse this hdPath = Some p \<and>
      decode message = Inr text \<and> app this (dstate wg) (Sign (unharden p) text) = (r, d') \<and>
      device_locked r \<noteq> Some True \<and> error_message r = Some ''Transaction rejected'' \<longrightarrow>
        sign decode toFixedLength this message hdPath w =
          (Inl (Error ''Transaction signing request was rejected by the user''),
           \<lparr>dstate = d', trace = trace wg @ [(Sign (unharden p) text, r)]\<rparr>))"
proof (intro conjI impI)
  assume "device_locked r \<noteq> Some True \<and> error_message r = Some ''Transaction rejected''"
  then show "handleLedgerErrors r (Some m) = Inl (Error m)"
    by (simp add: handleLedgerErrors_unlocked)
next
  assume a: "verifyDeviceIsReady this w = (Inr (), wg) \<and> hdPathToUse this hdPath = Some p \<and>
      decode message = Inr text \<and> app this (dstate wg) (Sign (unharden p) text) = (r, d') \<and>
      device_locked r \<noteq> Some True \<and> error_message r = Some ''Transaction rejected''"
  then have "handleLedgerErrors r (Some signRejectionMessage) = Inl (Error signRejectionMessage)"
    by (simp add: handleLedgerErrors_unlocked)
  with a show "sign decode toFixedLength this message hdPath w =
          (Inl (Error ''Transaction signing request was rejected by the user''),
           \<lparr>dstate = d', trace = trace wg @ [(Sign (unharden p) text, r)]\<rparr>)"
    by (simp add: sign_eq signRejectionMessage_def)
qed

theorem rejection_message_witness:
  "handleLedgerErrors (sample_response\<lparr>error_message := Some ''Transaction rejected''\<rparr>)
     (Some ''No thanks'') = Inl (Error ''No thanks'')
   \<and> fst (sign sample_fromUtf8 sample_fromDer sample_ledger [104, 105] None
       (start [sample_response, sample_response, sample_response,
               sample_response\<lparr>error_message := Some ''Transaction rejected''\<rparr>]))
     = Inl (Error ''Transaction signing request was rejected by the user'')"
proof -
  have a: "app sample_ledger = scripted"
    by (simp add: sample_ledger_simps)
  have r: "device_locked (sample_response\<lparr>error_message := Some ''Transaction rejected''\<rparr>) \<noteq> Some True
      \<and> error_message (sample_response\<lparr>error_message := Some ''Transaction rejected''\<rparr>)
          = Some ''Transaction rejected''"
    by (simp add: sample_response_simps)
  note first = rejection_message [THEN conjunct1, THEN mp, OF r, of "''No thanks''"]
  have gate: "verifyDeviceIsReady sample_ledger
      (start [sample_response, sample_response, sample_response,
               sample_response\<lparr>error_message := Some ''Transaction rejected''\<rparr>]) =
      (Inr (), \<lparr>dstate = [sample_response\<lparr>error_message := Some ''Transaction rejected''\<rparr>],
          trace = [(AppInfo, sample_response), (GetVersion, sample_response),
                   (AppInfo, sample_response)]\<rparr>)"
    by (simp add: start_def verifyDeviceIsReady_scripted [OF a])
  have path: "hdPathToUse sample_ledger None = Some persistenceHdPath"
    by (simp add: hdPathToUse_def sample_ledger_simps)
  have decoded: "sample_fromUtf8 [104, 105] = Inr (map (\<lambda>b. char_of (unat b)) [104, 105 :: 8 word])"
    by (simp add: sample_fromUtf8_def)
  have resp: "app sample_ledger
      (dstate \<lparr>dstate = [sample_response\<lparr>error_message := Some ''Transaction rejected''\<rparr>],
          trace = [(AppInfo, sample_response), (GetVersion, sample_response),
                   (AppInfo, sample_response)]\<rparr>)
      (Sign (unharden persistenceHdPath) (map (\<lambda>b. char_of (unat b)) [104, 105 :: 8 word])) =
      (sample_response\<lparr>error_message := Some ''Transaction rejected''\<rparr>, [])"
    by (simp add: a)
  note second = rejection_message [where decode = sample_fromUtf8
      and toFixedLength = sample_fromDer and message = "[104, 105]",
      THEN conjunct2, THEN mp,
      OF conjI [OF gate conjI [OF path conjI [OF decoded conjI [OF resp r]]]]]
  from first second show ?thesis
    by simp
qed

subsection \<open>No response with an error is passed over\<close>

lemma handleLedgerErrors_ok_any:
  "handleLedgerErrors r m = Inr () \<longleftrightarrow> handleLedgerErrors r None = Inr ()"
  by (simp add: handleLedgerErrors_ok_iff)

lemma error_free_refl: "error_free w w"
  by (simp add: error_free_def new_entries_def)

lemma new_entries_append: "trace w' = trace w @ n \<Longrightarrow> new_entries w w' = n"
  by (simp add: new_entries_def)

lemma error_free_trans: "error_free w w1 \<Longrightarrow> error_free w1 w2 \<Longrightarrow> error_free w w2"
proof -
  assume a: "error_free w w1" and b: "error_free w1 w2"
  from a have "trace w1 = trace w @ new_entries w w1"
    by (simp add: error_free_def)
  moreover from b have "trace w2 = trace w1 @ new_entries w1 w2"
    by (simp add: error_free_def)
  ultimately have t: "trace w2 = trace w @ (new_entries w w1 @ new_entries w1 w2)"
    by simp
  then have "new_entries w w2 = new_entries w w1 @ new_entries w1 w2"
    by (rule new_entries_append)
  with a b t show ?thesis
    by (simp add: error_free_def)
qed

lemma error_free_step:
  "handleLedgerErrors r m = Inr () \<Longrightarrow> trace w' = trace w @ [(rq, r)] \<Longrightarrow> error_free w w'"
  using handleLedgerErrors_ok_any [of r m] by (simp add: error_free_def new_entries_def)

lemma getOpenAppName_error_free:
  "fst (getOpenAppName this w) = Inr n \<Longrightarrow> error_free w (snd (getOpenAppName this w))"
  by (rule error_free_step [of "fst (app this (dstate w) AppInfo)" None _ _ AppInfo])
    (auto simp: getOpenAppName_eq Let_def split: sum.splits)

lemma verifyCosmosAppIsOpen_error_free:
  assumes "fst (verifyCosmosAppIsOpen this w) = Inr u"
  shows "error_free w (snd (verifyCosmosAppIsOpen this w))"
proof (cases "getOpenAppName this w")
  case (Pair res w')
  with assms obtain n where n: "res = Inr n"
    by (cases res) (auto simp: verifyCosmosAppIsOpen_def bind_def)
  with Pair have "snd (verifyCosmosAppIsOpen this w) = snd (getOpenAppName this w)"
    by (simp add: verifyCosmosAppIsOpen_cases)
  with getOpenAppName_error_free [of this w n] Pair n show ?thesis
    by simp
qed

lemma getCosmosAppVersion_error_free:
  assumes "fst (getCosmosAppVersion this w) = Inr v"
  shows "error_free w (snd (getCosmosAppVersion this w))"
proof (cases "verifyCosmosAppIsOpen this w")
  case (Pair res w1)
  with assms obtain u where u: "res = Inr u"
    by (cases res) (auto simp: getCosmosAppVersion_open_fails)
  with Pair have "fst (verifyCosmosAppIsOpen this w) = Inr u" by simp
  from verifyCosmosAppIsOpen_error_free [OF this] Pair have first: "error_free w w1"
    by simp
  let ?r = "fst (app this (dstate w1) GetVersion)"
  from Pair u have ok: "verifyCosmosAppIsOpen this w = (Inr u, w1)" by simp
  from assms have "handleLedgerErrors ?r None = Inr ()"
    and "trace (snd (getCosmosAppVersion this w)) = trace w1 @ [(GetVersion, ?r)]"
    by (auto simp: getCosmosAppVersion_open_ok [OF ok] Let_def split: sum.splits if_splits)
  then have "error_free w1 (snd (getCosmosAppVersion this w))"
    by (rule error_free_step)
  with first show ?thesis
    by (rule error_free_trans)
qed

lemma verifyDeviceIsReady_error_free:
  assumes "fst (verifyDeviceIsReady this w) = Inr u"
  shows "error_free w (snd (verifyDeviceIsReady this w))"
proof (cases "verifyAppVersion this w")
  case (Pair res w1)
  with assms obtain u' where u': "res = Inr u'"
    by (cases res) (auto simp: verifyDeviceIsReady_eq)
  with Pair have "fst (verifyAppVersion this w) = Inr u'" by simp
  from verifyAppVersion_Inr [OF this] obtain v where
    "fst (getCosmosAppVersion this w) = Inr v" ..
  from getCosmosAppVersion_error_free [OF this] Pair have first: "error_free w w1"
    by (simp add: verifyAppVersion_world [symmetric])
  from Pair u' assms have "fst (verifyCosmosAppIsOpen this w1) = Inr u"
    and "snd (verifyDeviceIsReady this w) = snd (verifyCosmosAppIsOpen this w1)"
    by (simp_all add: verifyDeviceIsReady_eq)
  with verifyCosmosAppIsOpen_error_free [of this w1 u]
  have "error_free w1 (snd (verifyDeviceIsReady this w))"
    by simp
  with first show ?thesis
    by (rule error_free_trans)
qed

lemma getPubkey_error_free:
  assumes "fst (getPubkey this hdPath w) = Inr k"
  shows "error_free w (snd (getPubkey this hdPath w))"
proof (cases "verifyDeviceIsReady this w")
  case (Pair res wg)
  with assms obtain u where u: "res = Inr u"
    by (cases res) (auto simp: getPubkey_eq)
  with Pair verifyDeviceIsReady_error_free [of this w u] have first: "error_free w wg"
    by simp
  from assms Pair u obtain p where p: "hdPathToUse this hdPath = Some p"
    by (cases "hdPathToUse this hdPath") (auto simp: getPubkey_eq)
  let ?r = "fst (app this (dstate wg) (PublicKey (unharden p)))"
  from assms Pair u p have "handleLedgerErrors ?r None = Inr ()"
    and "trace (snd (getPubkey this hdPath w)) = trace wg @ [(PublicKey (unharden p), ?r)]"
    by (auto simp: getPubkey_eq Let_def split: sum.splits)
  then have "error_free wg (snd (getPubkey this hdPath w))"
    by (rule error_free_step)
  with first show ?thesis
    by (rule error_free_trans)
qed

lemma sign_error_free:
  assumes "fst (sign fromUtf8 fromDerToFixedLength this message hdPath w) = Inr s"
  shows "error_free w (snd (sign fromUtf8 fromDerToFixedLength this message hdPath w))"
proof (cases "verifyDeviceIsReady this w")
  case (Pair res wg)
  with assms obtain u where u: "res = Inr u"
    by (cases res) (auto simp: sign_eq)
  with Pair verifyDeviceIsReady_error_free [of this w u] have first: "error_free w wg"
    by simp
  from assms Pair u obtain p where p: "hdPathToUse this hdPath = Some p"
    by (cases "hdPathToUse this hdPath") (auto simp: sign_eq)
  from assms Pair u p obtain t where t: "fromUtf8 message = Inr t"
    by (cases "fromUtf8 message") (auto simp: sign_eq)
  let ?r = "fst (app this (dstate wg) (Sign (unharden p) t))"
  from assms Pair u p t have "handleLedgerErrors ?r (Some signRejectionMessage) = Inr ()"
    and "trace (snd (sign fromUtf8 fromDerToFixedLength this message hdPath w)) =
           trace wg @ [(Sign (unharden p) t, ?r)]"
    by (auto simp: sign_eq Let_def split: sum.splits)
  then have "error_free wg (snd (sign fromUtf8 fromDerToFixedLength this message hdPath w))"
    by (rule error_free_step)
  with first show ?thesis
    by (rule error_free_trans)
qed

lemma verifyAddress_error_free:
  assumes "fst (verifyAddress this p w) = Inr a"
  shows "error_free w (snd (verifyAddress this p w))"
proof (cases "verifyDeviceIsReady this w")
  case (Pair res wg)
  with assms obtain u where u: "res = Inr u"
    by (cases res) (auto simp: verifyAddress_eq)
  with Pair verifyDeviceIsReady_error_free [of this w u] have first: "error_free w wg"
    by simp
  let ?rq = "ShowAddressAndPubKey (unharden p) ''persistence''"
  let ?r = "fst (app this (dstate wg) ?rq)"
  from assms Pair u have "handleLedgerErrors ?r None = Inr ()"
    and "trace (snd (verifyAddress this p w)) = trace wg @ [(?rq, ?r)]"
    by (auto simp: verifyAddress_eq Let_def split: sum.splits)
  then have "error_free wg (snd (verifyAddress this p w))"
    by (rule error_free_step)
  with first show ?thesis
    by (rule error_free_trans)
qed


text \<open>
  Claim C1. Error translation follows the table of the specification. It succeeds
  exactly when the device is not locked and the error text is absent or \<open>No errors\<close>.
  A locked device gives the screensaver failure whatever the text is. Otherwise each
  listed text gives its listed failure, and any other text gives the failure whose
  message is \<open>Ledger Native Error: \<close> followed by the raw text. Every method that
  calls the device translates the response: when the method returns a value, every
  response it received was free of errors.
\<close>

theorem handleLedgerErrors_table:
  "((handleLedgerErrors r m = Inr () \<longleftrightarrow>
      device_locked r \<noteq> Some True \<and>
      (error_message r = None \<or> error_message r = Some ''No errors''))
   \<and> (device_locked r = Some True \<longrightarrow> handleLedgerErrors r m = Inl (Error msg_DeviceLocked))
   \<and> (device_locked r \<noteq> Some True \<longrightarrow>
        (error_message r = Some ''U2F: Timeout'' \<longrightarrow>
           handleLedgerErrors r m = Inl (Error msg_ConnectionTimeout))
      \<and> (error_message r = Some ''Persistence app does not seem to be open'' \<longrightarrow>
           handleLedgerErrors r m = Inl (Error msg_AppNotOpen))
      \<and> (error_message r = Some ''Command not allowed'' \<longrightarrow>
           handleLedgerErrors r m = Inl (Error msg_TransactionRejected))
      \<and> (error_message r = Some ''Transaction rejected'' \<longrightarrow>
           handleLedgerErrors r m =
             Inl (Error (case m of None \<Rightarrow> defaultRejectionMessage | Some x \<Rightarrow> x)))
      \<and> (error_message r = Some ''Unknown Status Code: 26628'' \<longrightarrow>
           handleLedgerErrors r m = Inl (Error msg_DeviceLocked))
      \<and> (error_message r = Some ''Instruction not supported'' \<longrightarrow>
           handleLedgerErrors r m = Inl (Error msg_OutdatedInstruction))
      \<and> (\<forall>t. error_message r = Some t \<and>
             t \<notin> {''U2F: Timeout'', ''Persistence app does not seem to be open'',
                  ''Command not allowed'', ''Transaction rejected'',
                  ''Unknown Status Code: 26628'', ''Instruction not supported'', ''No errors''} \<longrightarrow>
           handleLedgerErrors r m = Inl (Error (''Ledger Native Error: '' @ t)))))
   \<and> ((fst (getOpenAppName this w) = Inr n \<longrightarrow> error_free w (snd (getOpenAppName this w)))
      \<and> (fst (getCosmosAppVersion this w) = Inr v \<longrightarrow>
           error_free w (snd (getCosmosAppVersion this w)))
      \<and> (fst (getPubkey this hdPath w) = Inr k \<longrightarrow> error_free w (snd (getPubkey this hdPath w)))
      \<and> (fst (sign decode toFixedLength this message hdPath w) = Inr s \<longrightarrow>
           error_free w (snd (sign decode toFixedLength this message hdPath w)))
      \<and> (fst (verifyAddress this path w) = Inr a \<longrightarrow>
           error_free w (snd (verifyAddress this path w))))"
    (is "?table \<and> ?methods")
proof
  show ?table
  proof (intro conjI impI allI)
    show "handleLedgerErrors r m = Inr () \<longleftrightarrow>
        device_locked r \<noteq> Some True \<and>
        (error_message r = None \<or> error_message r = Some ''No errors'')"
      by (rule handleLedgerErrors_ok_iff)
  next
    fix t
    assume "device_locked r \<noteq> Some True"
      and "error_message r = Some t \<and>
             t \<notin> {''U2F: Timeout'', ''Persistence app does not seem to be open'',
                  ''Command not allowed'', ''Transaction rejected'',
                  ''Unknown Status Code: 26628'', ''Instruction not supported'', ''No errors''}"
    then show "handleLedgerErrors r m = Inl (Error (''Ledger Native Error: '' @ t))"
      by (simp add: handleLedgerErrors_unlocked msg_UnknownDeviceError_def)
  qed (simp_all add: handleLedgerErrors_locked handleLedgerErrors_unlocked)
  show ?methods
    by (intro conjI impI getOpenAppName_error_free getCosmosAppVersion_error_free
        getPubkey_error_free sign_error_free verifyAddress_error_free)
qed

theorem handleLedgerErrors_table_witness:
  "handleLedgerErrors (sample_response\<lparr>device_locked := Some True,
       error_message := Some ''Transaction rejected''\<rparr>) None = Inl (Error msg_DeviceLocked)
   \<and> handleLedgerErrors (sample_response\<lparr>error_message := Some ''U2F: Timeout''\<rparr>) None
       = Inl (Error msg_ConnectionTimeout)
   \<and> handleLedgerErrors (sample_response\<lparr>error_message := Some ''0x6985''\<rparr>) None
       = Inl (Error ''Ledger Native Error: 0x6985'')
   \<and> handleLedgerErrors sample_response None = Inr ()
   \<and> error_free
       (start [sample_response, sample_response, sample_response, key_response [2, 1]])
       (snd (getPubkey sample_ledger None
          (start [sample_response, sample_response, sample_response, key_response [2, 1]])))"
proof -
  note table = handleLedgerErrors_table [THEN conjunct1]
  note methods = handleLedgerErrors_table [THEN conjunct2]
  have "error_free
       (start [sample_response, sample_response, sample_response, key_response [2, 1]])
       (snd (getPubkey sample_ledger None
          (start [sample_response, sample_response, sample_response, key_response [2, 1]])))"
    by (rule methods [THEN conjunct2, THEN conjunct2, THEN conjunct1, THEN mp])
      (simp add: getPubkey_sample)
  with table [of "sample_response\<lparr>device_locked := Some True,
       error_message := Some ''Transaction rejected''\<rparr>" None]
    table [of "sample_response\<lparr>error_message := Some ''U2F: Timeout''\<rparr>" None]
    table [of "sample_response\<lparr>error_message := Some ''0x6985''\<rparr>" None]
    table [of sample_response None]
  show ?thesis
    by (simp add: sample_response_def)
qed

subsection \<open>What the gate checks\<close>

lemma verifyCosmosAppIsOpen_eval:
  assumes "a = fst (app this (dstate w) AppInfo)" "d = snd (app this (dstate w) AppInfo)"
  shows "verifyCosmosAppIsOpen this w =
     (case handleLedgerErrors a None of
        Inl e \<Rightarrow> Inl e
      | Inr _ \<Rightarrow>
          if toLowerCase (appName a) = ''dashboard'' then Inl (Error msg_WrongScreen)
          else if toLowerCase (appName a) \<noteq> ''persistence''
            then Inl (Error (msg_WrongAppOpen (appName a)))
          else Inr (),
      \<lparr>dstate = d, trace = trace w @ [(AppInfo, a)]\<rparr>)"
proof (cases "handleLedgerErrors a None")
  case (Inl e)
  with assms have "getOpenAppName this w = (Inl e, \<lparr>dstate = d, trace = trace w @ [(AppInfo, a)]\<rparr>)"
    by (simp add: getOpenAppName_eq Let_def)
  with Inl show ?thesis
    by (simp add: verifyCosmosAppIsOpen_def bind_Inl)
next
  case (Inr u)
  with assms have
    "getOpenAppName this w = (Inr (appName a), \<lparr>dstate = d, trace = trace w @ [(AppInfo, a)]\<rparr>)"
    by (simp add: getOpenAppName_eq Let_def)
  from verifyCosmosAppIsOpen_cases [OF this] Inr show ?thesis
    by simp
qed

lemma verifyCosmosAppIsOpen_passes_iff:
  "fst (verifyCosmosAppIsOpen this w) = Inr () \<longleftrightarrow>
     handleLedgerErrors (fst (app this (dstate w) AppInfo)) None = Inr () \<and>
     appName (fst (app this (dstate w) AppInfo)) \<in> set (casings ''Persistence'')"
proof -
  have neq: "''persistence'' \<noteq> ''dashboard''" by simp
  show ?thesis
    unfolding casings_iff toLowerCase_Persistence
    using neq
    by (cases "handleLedgerErrors (fst (app this (dstate w) AppInfo)) None")
      (auto simp: verifyCosmosAppIsOpen_eval [OF refl refl])
qed

lemma verifyAppVersion_passes_iff:
  assumes "d1 = snd (app this (dstate w) AppInfo)" "v = fst (app this d1 GetVersion)"
  shows "fst (verifyAppVersion this w) = Inr () \<longleftrightarrow>
     fst (verifyCosmosAppIsOpen this w) = Inr () \<and> handleLedgerErrors v None = Inr () \<and>
     \<not> (test_mode v \<and> \<not> testModeAllowed this) \<and>
     semver_gte (versionString v) requiredPersistenceAppVersion = Inr True"
proof (cases "verifyCosmosAppIsOpen this w")
  case (Pair res w1)
  from verifyCosmosAppIsOpen_world [of this w] Pair assms(1) have d: "dstate w1 = d1"
    by simp
  show ?thesis
  proof (cases res)
    case (Inl e)
    with Pair show ?thesis
      by (simp add: verifyAppVersion_def getCosmosAppVersion_open_fails bind_Inl)
  next
    case (Inr u)
    with Pair have ok: "verifyCosmosAppIsOpen this w = (Inr u, w1)" by simp
    show ?thesis
    proof (cases "handleLedgerErrors v None = Inr () \<and> \<not> (test_mode v \<and> \<not> testModeAllowed this)")
      case True
      with ok d assms(2) have "getCosmosAppVersion this w =
          (Inr (versionString v),
           \<lparr>dstate = snd (app this (dstate w1) GetVersion), trace = trace w1 @ [(GetVersion, v)]\<rparr>)"
        by (auto simp: getCosmosAppVersion_open_ok Let_def)
      from verifyAppVersion_eq [OF this] True ok show ?thesis
        by (cases "semver_gte (versionString v) requiredPersistenceAppVersion") auto
    next
      case False
      with ok d assms(2) have "\<forall>s. fst (getCosmosAppVersion this w) \<noteq> Inr s"
        by (auto simp: getCosmosAppVersion_open_ok Let_def split: sum.splits)
      with verifyAppVersion_Inr [of this w "()"] False show ?thesis
        by auto
    qed
  qed
qed

lemma verifyAppVersion_dstate:
  assumes "fst (verifyAppVersion this w) = Inr ()"
  shows "dstate (snd (verifyAppVersion this w)) =
           snd (app this (snd (app this (dstate w) AppInfo)) GetVersion)"
proof (cases "verifyCosmosAppIsOpen this w")
  case (Pair res w1)
  from verifyCosmosAppIsOpen_world [of this w] Pair
  have d: "dstate w1 = snd (app this (dstate w) AppInfo)"
    by simp
  from verifyAppVersion_Inr [OF assms] obtain s where s: "fst (getCosmosAppVersion this w) = Inr s" ..
  with Pair obtain u where "res = Inr u"
    by (cases res) (auto simp: getCosmosAppVersion_open_fails)
  with Pair have "verifyCosmosAppIsOpen this w = (Inr u, w1)" by simp
  from getCosmosAppVersion_open_ok [OF this] d show ?thesis
    by (simp add: verifyAppVersion_world Let_def split: sum.splits if_splits)
qed

lemma verifyDeviceIsReady_passes_iff:
  assumes "a1 = fst (app this (dstate w) AppInfo)" "d1 = snd (app this (dstate w) AppInfo)"
      and "v = fst (app this d1 GetVersion)" "d2 = snd (app this d1 GetVersion)"
      and "a2 = fst (app this d2 AppInfo)"
  shows "fst (verifyDeviceIsReady this w) = Inr () \<longleftrightarrow>
     handleLedgerErrors a1 None = Inr () \<and> appName a1 \<in> set (casings ''Persistence'') \<and>
     handleLedgerErrors v None = Inr () \<and> \<not> (test_mode v \<and> \<not> testModeAllowed this) \<and>
     semver_gte (versionString v) requiredPersistenceAppVersion = Inr True \<and>
     handleLedgerErrors a2 None = Inr () \<and> appName a2 \<in> set (casings ''Persistence'')"
    (is "?pass \<longleftrightarrow> ?app1 \<and> ?name1 \<and> ?ver \<and> ?mode \<and> ?semver \<and> ?app2 \<and> ?name2")
proof -
  have first: "fst (verifyCosmosAppIsOpen this w) = Inr () \<longleftrightarrow> ?app1 \<and> ?name1"
    unfolding assms(1) by (rule verifyCosmosAppIsOpen_passes_iff)
  have version: "fst (verifyAppVersion this w) = Inr () \<longleftrightarrow>
      ?app1 \<and> ?name1 \<and> ?ver \<and> ?mode \<and> ?semver"
    unfolding verifyAppVersion_passes_iff [OF assms(2,3)] first by blast
  show ?thesis
  proof (cases "verifyAppVersion this w")
    case (Pair res w1)
    show ?thesis
    proof (cases res)
      case (Inl e)
      with Pair have "fst (verifyAppVersion this w) \<noteq> Inr ()" by simp
      with version have no: "\<not> (?app1 \<and> ?name1 \<and> ?ver \<and> ?mode \<and> ?semver)"
        by blast
      from Pair Inl have "\<not> ?pass"
        by (simp add: verifyDeviceIsReady_eq)
      with no show ?thesis by blast
    next
      case (Inr u)
      with Pair have pass: "fst (verifyAppVersion this w) = Inr ()" by simp
      with version have yes: "?app1 \<and> ?name1 \<and> ?ver \<and> ?mode \<and> ?semver"
        by blast
      from verifyAppVersion_dstate [OF pass] Pair assms(2,4) have d: "dstate w1 = d2"
        by simp
      from Pair Inr have "?pass \<longleftrightarrow> fst (verifyCosmosAppIsOpen this w1) = Inr ()"
        by (simp add: verifyDeviceIsReady_eq)
      also have "\<dots> \<longleftrightarrow> ?app2 \<and> ?name2"
        unfolding assms(5) d [symmetric] by (rule verifyCosmosAppIsOpen_passes_iff)
      finally show ?thesis
        using yes by blast
    qed
  qed
qed

lemma verifyAppVersion_pass_world:
  assumes "fst (verifyAppVersion this w) = Inr ()"
      and "a1 = fst (app this (dstate w) AppInfo)" "d1 = snd (app this (dstate w) AppInfo)"
      and "v = fst (app this d1 GetVersion)" "d2 = snd (app this d1 GetVersion)"
  shows "snd (verifyAppVersion this w) =
           \<lparr>dstate = d2, trace = trace w @ [(AppInfo, a1), (GetVersion, v)]\<rparr>"
proof (cases "verifyCosmosAppIsOpen this w")
  case (Pair res w1)
  from verifyCosmosAppIsOpen_world [of this w] Pair assms(2,3)
  have w1: "w1 = \<lparr>dstate = d1, trace = trace w @ [(AppInfo, a1)]\<rparr>"
    by simp
  from verifyAppVersion_Inr [OF assms(1)] obtain s where
    s: "fst (getCosmosAppVersion this w) = Inr s" ..
  with Pair obtain u where "res = Inr u"
    by (cases res) (auto simp: getCosmosAppVersion_open_fails)
  with Pair have "verifyCosmosAppIsOpen this w = (Inr u, w1)" by simp
  from getCosmosAppVersion_open_ok [OF this] s w1 assms(4,5) show ?thesis
    by (simp add: verifyAppVersion_world Let_def split: sum.splits if_splits)
qed

lemma verifyDeviceIsReady_pass_world:
  assumes "verifyDeviceIsReady this w = (Inr (), wg)"
      and "a1 = fst (app this (dstate w) AppInfo)" "d1 = snd (app this (dstate w) AppInfo)"
      and "v = fst (app this d1 GetVersion)" "d2 = snd (app this d1 GetVersion)"
      and "a2 = fst (app this d2 AppInfo)" "d3 = snd (app this d2 AppInfo)"
  shows "wg = \<lparr>dstate = d3, trace = trace w @ [(AppInfo, a1), (GetVersion, v), (AppInfo, a2)]\<rparr>"
proof (cases "verifyAppVersion this w")
  case (Pair res w1)
  with assms(1) obtain u where u: "res = Inr u"
    by (cases res) (auto simp: verifyDeviceIsReady_eq)
  with Pair have "fst (verifyAppVersion this w) = Inr ()" by simp
  from verifyAppVersion_pass_world [OF this assms(2-5)] Pair
  have w1: "w1 = \<lparr>dstate = d2, trace = trace w @ [(AppInfo, a1), (GetVersion, v)]\<rparr>"
    by simp
  from Pair u assms(1) have "wg = snd (verifyCosmosAppIsOpen this w1)"
    by (simp add: verifyDeviceIsReady_eq)
  with w1 assms(6,7) show ?thesis
    by (simp add: verifyCosmosAppIsOpen_world)
qed

text \<open>
  Claim C2. The gate \<open>verifyDeviceIsReady\<close> is the version check followed by the
  open-app check. It passes exactly when the first app response is free of errors
  and names the Persistence app, the version response is free of errors, is not in a
  test mode that the session refuses and reports a version that \<open>semver\<close> puts at
  \<open>1.0.0\<close> or above, and the second app response is again free of errors and names
  the Persistence app; its log is then these three exchanges. The gate sends no data
  request. Each of \<open>getPubkey\<close>, \<open>sign\<close> and \<open>verifyAddress\<close> first runs the gate from
  the world it is called in, whatever happened before: when the gate fails, the
  operation fails with the same error and nothing more is sent; when it passes, at
  most one data request follows, after every exchange of the gate.
\<close>

theorem gate_before_data_request:
  assumes "verifyDeviceIsReady this w = (res, wg)"
      and "a1 = fst (app this (dstate w) AppInfo)" "d1 = snd (app this (dstate w) AppInfo)"
      and "v = fst (app this d1 GetVersion)" "d2 = snd (app this d1 GetVersion)"
      and "a2 = fst (app this d2 AppInfo)" "d3 = snd (app this d2 AppInfo)"
  shows "verifyDeviceIsReady this w =
           (case verifyAppVersion this w of
              (Inl e, w1) \<Rightarrow> (Inl e, w1)
            | (Inr _, w1) \<Rightarrow> verifyCosmosAppIsOpen this w1)
       \<and> (res = Inr () \<longleftrightarrow>
            handleLedgerErrors a1 None = Inr () \<and> appName a1 \<in> set (casings ''Persistence'') \<and>
            handleLedgerErrors v None = Inr () \<and> \<not> (test_mode v \<and> \<not> testModeAllowed this) \<and>
            semver_gte (versionString v) requiredPersistenceAppVersion = Inr True \<and>
            handleLedgerErrors a2 None = Inr () \<and> appName a2 \<in> set (casings ''Persistence''))
       \<and> (major v \<le> MAX_SAFE_INTEGER \<and> minor v \<le> MAX_SAFE_INTEGER \<and> patch v \<le> MAX_SAFE_INTEGER \<longrightarrow>
            (semver_gte (versionString v) requiredPersistenceAppVersion = Inr True \<longleftrightarrow>
             \<not> (major v, minor v, patch v) < (1, 0, 0)))
       \<and> (res = Inr () \<longrightarrow>
            wg = \<lparr>dstate = d3, trace = trace w @ [(AppInfo, a1), (GetVersion, v), (AppInfo, a2)]\<rparr>)
       \<and> (\<exists>g. trace wg = trace w @ g \<and> (\<forall>x\<in>set g. \<not> is_data_request (fst x)) \<and>
              (res = Inr () \<longrightarrow> map fst g = [AppInfo, GetVersion, AppInfo]))
       \<and> (\<forall>e. res = Inl e \<longrightarrow>
              getPubkey this hdPath w = (Inl e, wg) \<and>
              sign decode toFixedLength this message hdPath w = (Inl e, wg) \<and>
              verifyAddress this path w = (Inl e, wg))
       \<and> (res = Inr () \<longrightarrow>
              (hdPathToUse this hdPath = None \<and> trace (snd (getPubkey this hdPath w)) = trace wg
               \<or> (\<exists>p rs. hdPathToUse this hdPath = Some p \<and>
                     trace (snd (getPubkey this hdPath w)) =
                       trace wg @ [(PublicKey (unharden p), rs)]))
            \<and> (trace (snd (sign decode toFixedLength this message hdPath w)) = trace wg
               \<or> (\<exists>p text rs. hdPathToUse this hdPath = Some p \<and> decode message = Inr text \<and>
                     trace (snd (sign decode toFixedLength this message hdPath w)) =
                       trace wg @ [(Sign (unharden p) text, rs)]))
            \<and> (\<exists>rs. trace (snd (verifyAddress this path w)) =
                       trace wg @ [(ShowAddressAndPubKey (unharden path) ''persistence'', rs)]))"
    (is "?order \<and> ?passes \<and> ?semver \<and> ?log \<and> ?gate \<and> ?fails \<and> (_ \<longrightarrow> ?key \<and> ?sig \<and> ?addr)")
proof (intro conjI)
  show ?order
    by (rule verifyDeviceIsReady_eq)
  from assms(1) have r: "fst (verifyDeviceIsReady this w) = res"
    by simp
  show ?passes
    using verifyDeviceIsReady_passes_iff [OF assms(2-6)] unfolding r .
  show ?semver
    by (simp add: semver_gte_versionString)
  from assms show ?log
    by (auto dest: verifyDeviceIsReady_pass_world)
  from verifyDeviceIsReady_trace [of this w] assms(1) show ?gate
    by simp
  from assms(1) show ?fails
    by (simp add: getPubkey_eq sign_eq verifyAddress_eq)
  show "res = Inr () \<longrightarrow> ?key \<and> ?sig \<and> ?addr"
  proof (intro impI conjI)
    assume "res = Inr ()"
    with assms(1) have gate: "verifyDeviceIsReady this w = (Inr (), wg)" by simp
    show ?key
      by (cases "hdPathToUse this hdPath") (simp_all add: getPubkey_eq gate Let_def)
    show ?sig
      by (cases "hdPathToUse this hdPath"; cases "decode message")
        (simp_all add: sign_eq gate Let_def)
    show ?addr
      by (simp add: verifyAddress_eq gate Let_def)
  qed
qed

lemma verifyDeviceIsReady_outdated:
  assumes "app this = scripted"
  shows "verifyDeviceIsReady this
           \<lparr>dstate = sample_response # version_response 0 9 9 # rs, trace = t\<rparr> =
           (Inl (Error msg_OutdatedApp),
            \<lparr>dstate = rs,
             trace = t @ [(AppInfo, sample_response), (GetVersion, version_response 0 9 9)]\<rparr>)"
proof -
  have h: "handleLedgerErrors (version_response 0 9 9) None = Inr ()"
    by (simp add: handleLedgerErrors_ok_iff version_response_simps)
  have "getCosmosAppVersion this
           \<lparr>dstate = sample_response # version_response 0 9 9 # rs, trace = t\<rparr> =
          (Inr (versionString (version_response 0 9 9)),
           \<lparr>dstate = rs,
            trace = t @ [(AppInfo, sample_response), (GetVersion, version_response 0 9 9)]\<rparr>)"
    by (simp add: getCosmosAppVersion_scripted [OF assms] h version_response_simps)
  moreover have "semver_gte (versionString (version_response 0 9 9)) requiredPersistenceAppVersion
      = Inr False"
    by (simp add: semver_gte_versionString version_response_simps MAX_SAFE_INTEGER_def)
  ultimately show ?thesis
    by (simp add: verifyDeviceIsReady_eq verifyAppVersion_eq)
qed

lemma verifyDeviceIsReady_second_dashboard:
  assumes "app this = scripted"
  shows "verifyDeviceIsReady this
           \<lparr>dstate = sample_response # sample_response #
                sample_response\<lparr>appName := ''Dashboard''\<rparr> # rs, trace = t\<rparr> =
           (Inl (Error msg_WrongScreen),
            \<lparr>dstate = rs,
             trace = t @ [(AppInfo, sample_response), (GetVersion, sample_response),
                          (AppInfo, sample_response\<lparr>appName := ''Dashboard''\<rparr>)]\<rparr>)"
proof -
  have "getCosmosAppVersion this
           \<lparr>dstate = sample_response # sample_response #
                sample_response\<lparr>appName := ''Dashboard''\<rparr> # rs, trace = t\<rparr> =
          (Inr (versionString sample_response),
           \<lparr>dstate = sample_response\<lparr>appName := ''Dashboard''\<rparr> # rs,
            trace = t @ [(AppInfo, sample_response), (GetVersion, sample_response)]\<rparr>)"
    by (simp add: getCosmosAppVersion_scripted [OF assms] handleLedgerErrors_sample_response
        sample_response_simps)
  moreover have h: "handleLedgerErrors (sample_response\<lparr>appName := ''Dashboard''\<rparr>) None = Inr ()"
    by (simp add: handleLedgerErrors_ok_iff sample_response_simps)
  moreover have "verifyCosmosAppIsOpen this
           \<lparr>dstate = sample_response\<lparr>appName := ''Dashboard''\<rparr> # rs, trace = t'\<rparr> =
           (Inl (Error msg_WrongScreen),
            \<lparr>dstate = rs, trace = t' @ [(AppInfo, sample_response\<lparr>appName := ''Dashboard''\<rparr>)]\<rparr>)"
    for t'
    using getOpenAppName_scripted [OF assms h]
    by (simp add: verifyCosmosAppIsOpen_cases toLowerCase_Dashboard)
  ultimately show ?thesis
    by (simp add: verifyDeviceIsReady_eq verifyAppVersion_eq semver_gte_sample)
qed

theorem gate_before_data_request_witness:
  "getPubkey sample_ledger None
      (start [sample_response\<lparr>appName := ''Dashboard''\<rparr>, sample_response]) =
     (Inl (Error msg_WrongScreen),
      \<lparr>dstate = [sample_response],
       trace = [(AppInfo, sample_response\<lparr>appName := ''Dashboard''\<rparr>)]\<rparr>)
   \<and> getPubkey sample_ledger None
      (start [sample_response, version_response 0 9 9, sample_response, sample_response]) =
     (Inl (Error msg_OutdatedApp),
      \<lparr>dstate = [sample_response, sample_response],
       trace = [(AppInfo, sample_response), (GetVersion, version_response 0 9 9)]\<rparr>)
   \<and> getPubkey sample_ledger None
      (start [sample_response, sample_response, sample_response\<lparr>appName := ''Dashboard''\<rparr>,
              sample_response]) =
     (Inl (Error msg_WrongScreen),
      \<lparr>dstate = [sample_response],
       trace = [(AppInfo, sample_response), (GetVersion, sample_response),
                (AppInfo, sample_response\<lparr>appName := ''Dashboard''\<rparr>)]\<rparr>)
   \<and> trace (snd (getPubkey sample_ledger None
        (start [sample_response, sample_response, sample_response, sample_response]))) =
       [(AppInfo, sample_response), (GetVersion, sample_response), (AppInfo, sample_response),
        (PublicKey [44, 750, 0, 0, 0], sample_response)]
   \<and> trace (snd (verifyAddress sample_ledger persistenceHdPath
        (snd (getPubkey sample_ledger None
           (start [sample_response, sample_response, sample_response, sample_response,
                   sample_response, sample_response, sample_response, sample_response]))))) =
       [(AppInfo, sample_response), (GetVersion, sample_response), (AppInfo, sample_response),
        (PublicKey [44, 750, 0, 0, 0], sample_response),
        (AppInfo, sample_response), (GetVersion, sample_response), (AppInfo, sample_response),
        (ShowAddressAndPubKey [44, 750, 0, 0, 0] ''persistence'', sample_response)]"
proof -
  have a: "app sample_ledger = scripted"
    by (simp add: sample_ledger_simps)
  have p: "hdPathToUse sample_ledger None = Some persistenceHdPath"
    by (simp add: hdPathToUse_def sample_ledger_simps)
  note fails = gate_before_data_request [where hdPath = None, THEN conjunct2, THEN conjunct2,
      THEN conjunct2, THEN conjunct2, THEN conjunct2, THEN conjunct1, THEN spec, THEN mp,
      OF _ refl refl refl refl refl refl refl, THEN conjunct1]
  note first_dashboard = fails [OF verifyDeviceIsReady_dashboard [OF a, of "[sample_response]" "[]"]]
  note outdated = fails [OF verifyDeviceIsReady_outdated
      [OF a, of "[sample_response, sample_response]" "[]"]]
  note second_dashboard = fails [OF verifyDeviceIsReady_second_dashboard
      [OF a, of "[sample_response]" "[]"]]
  have first: "getPubkey sample_ledger None
        (start (sample_response # sample_response # sample_response # sample_response # rs)) =
      (Inr [2, 171], \<lparr>dstate = rs, trace =
       [(AppInfo, sample_response), (GetVersion, sample_response), (AppInfo, sample_response),
        (PublicKey [44, 750, 0, 0, 0], sample_response)]\<rparr>)" for rs
    by (simp add: getPubkey_eq start_def verifyDeviceIsReady_scripted [OF a] p
        unharden_persistenceHdPath a handleLedgerErrors_sample_response sample_response_simps)
  have second: "trace (snd (verifyAddress sample_ledger persistenceHdPath
      \<lparr>dstate = [sample_response, sample_response, sample_response, sample_response], trace =
       [(AppInfo, sample_response), (GetVersion, sample_response), (AppInfo, sample_response),
        (PublicKey [44, 750, 0, 0, 0], sample_response)]\<rparr>)) =
       [(AppInfo, sample_response), (GetVersion, sample_response), (AppInfo, sample_response),
        (PublicKey [44, 750, 0, 0, 0], sample_response),
        (AppInfo, sample_response), (GetVersion, sample_response), (AppInfo, sample_response),
        (ShowAddressAndPubKey [44, 750, 0, 0, 0] ''persistence'', sample_response)]"
    by (simp add: verifyAddress_eq verifyDeviceIsReady_scripted [OF a] a
        unharden_persistenceHdPath)
  from first_dashboard outdated second_dashboard first second show ?thesis
    by (simp add: start_def)
qed

end
